(* ===== verification/Prelude.thy ===== *)
theory Prelude
  imports Main "HOL-Library.Word"
begin

text \<open>
  Shared vocabulary of the development: the C++ integer types, error codes, exceptions and the
  outcome of a statement, decimal output, the operations of \<open>std::string\<close> and
  \<open>std::string_view\<close> that the sources use, and the list lemmas the component theories share.

  A \<open>std::string\<close> is a list of bytes; Isabelle's \<^typ>\<open>char\<close> has exactly 256 values, so
  \<^typ>\<open>string\<close> is the type of byte strings.
\<close>

subsection \<open>Collections of facts\<close>

named_theorems run_simps \<open>rules that execute a sequence of statements\<close>
named_theorems inv_intros \<open>preservation rules of the component invariants\<close>

subsection \<open>Machine integers\<close>

type_synonym size_t = "64 word"
type_synonym uint32 = "32 word"
type_synonym port_t = "16 word"

abbreviation npos :: size_t where
  "npos \<equiv> - 1"

subsection \<open>Error codes, exceptions, outcomes\<close>

text \<open>\<open>std::error_code\<close>: a category and a value; the value 0 is success.\<close>

record error_code =
  ec_category :: string
  ec_value :: int

definition no_error :: error_code where
  "no_error = \<lparr>ec_category = ''system'', ec_value = 0\<rparr>"

definition failed :: "error_code \<Rightarrow> bool" where
  "failed ec = (ec_value ec \<noteq> 0)"

datatype exn =
    SystemError error_code
  | RuntimeError string
  | LengthError string
  | LogicError string
  | DomainError string
  | BadFunctionCall

text \<open>
  How a statement ends: normally with a value, by an exception, by a failed \<open>assert\<close>
  (which aborts the process), or in undefined behaviour (here: a use of a destroyed object).
  The state reached so far is returned beside it, since C++ does not roll it back.
\<close>

datatype 'a outcome = Ret 'a | Throw exn | AssertFail string | Undefined string

type_synonym ('s, 'a) run = "'a outcome \<times> 's"

fun andThen :: "('s, 'a) run \<Rightarrow> ('a \<Rightarrow> 's \<Rightarrow> ('s, 'b) run) \<Rightarrow> ('s, 'b) run" where
  "andThen (Ret a, s) f = f a s"
| "andThen (Throw e, s) f = (Throw e, s)"
| "andThen (AssertFail m, s) f = (AssertFail m, s)"
| "andThen (Undefined m, s) f = (Undefined m, s)"

subsection \<open>Decimal output\<close>

fun show_nat :: "nat \<Rightarrow> string" where
  "show_nat n = (if n < 10 then [char_of (48 + n)] else show_nat (n div 10) @ [char_of (48 + n mod 10)])"

definition show_int :: "int \<Rightarrow> string" where
  "show_int i = (if i < 0 then CHR ''-'' # show_nat (nat (- i)) else show_nat (nat i))"

definition show_error_code :: "error_code \<Rightarrow> string" where
  "show_error_code ec = ec_category ec @ '':'' @ show_int (ec_value ec)"

subsection \<open>Byte strings and views\<close>

definition sv_size :: "string \<Rightarrow> size_t" where
  "sv_size s = of_nat (length s)"

definition find_char :: "string \<Rightarrow> char \<Rightarrow> size_t" where
  "find_char s c = (if c \<in> set s then of_nat (length (takeWhile (\<lambda>x. x \<noteq> c) s)) else npos)"

definition find_first_not_of :: "string \<Rightarrow> string \<Rightarrow> size_t" where
  "find_first_not_of s cs =
     (let k = length (takeWhile (\<lambda>x. x \<in> set cs) s) in if k < length s then of_nat k else npos)"

definition find_last_not_of :: "string \<Rightarrow> string \<Rightarrow> size_t" where
  "find_last_not_of s cs =
     (let k = length (takeWhile (\<lambda>x. x \<in> set cs) (rev s))
      in if k < length s then of_nat (length s - k - 1) else npos)"

definition remove_prefix :: "string \<Rightarrow> size_t \<Rightarrow> string" where
  "remove_prefix s n = drop (unat n) s"

definition remove_suffix :: "string \<Rightarrow> size_t \<Rightarrow> string" where
  "remove_suffix s n = take (length s - unat n) s"

text \<open>\<open>s.substr(0, n)\<close> and \<open>s.erase(0, n)\<close>: both clamp \<open>n\<close> to the size.\<close>

definition substr0 :: "string \<Rightarrow> size_t \<Rightarrow> string" where
  "substr0 s n = take (unat n) s"

definition erase0 :: "string \<Rightarrow> size_t \<Rightarrow> string" where
  "erase0 s n = drop (unat n) s"

text \<open>\<open>s.rfind(p, 0)\<close>: the last occurrence that starts at or before position 0.\<close>

definition rfind_at0 :: "string \<Rightarrow> string \<Rightarrow> size_t" where
  "rfind_at0 s p = (if take (length p) s = p then 0 else npos)"

subsection \<open>Lemmas\<close>

declare show_nat.simps [simp del]

lemma failed_no_error [simp]: "\<not> failed no_error"
  by (simp add: failed_def no_error_def)

lemma andThen_eq_Ret:
  "andThen r f = (Ret b, s') \<longleftrightarrow> (\<exists>a s. r = (Ret a, s) \<and> f a s = (Ret b, s'))"
  by (cases "(r, f)" rule: andThen.cases) auto

lemma andThen_unit [simp]: "andThen (r :: ('s, unit) run) (\<lambda>_ s. (Ret (), s)) = r"
  by (cases "(r, \<lambda>(_ :: unit) (s :: 's). (Ret () :: unit outcome, s))" rule: andThen.cases) auto

lemma show_nat_not_Nil [simp]: "show_nat n \<noteq> []"
  by (subst show_nat.simps) simp

lemma unat_of_nat_size [simp]: "n < 2 ^ 64 \<Longrightarrow> unat (of_nat n :: size_t) = n"
  by (simp add: unat_of_nat take_bit_nat_eq_self)

lemma unat_of_nat_u32 [simp]: "n < 2 ^ 32 \<Longrightarrow> unat (of_nat n :: uint32) = n"
  by (simp add: unat_of_nat take_bit_nat_eq_self)

lemma unat_u32_less: "unat (w :: uint32) < 4294967296"
  by (rule less_le_trans [OF unsigned_less]) simp

lemma unat_u64_less: "unat (w :: 64 word) < 18446744073709551616"
  by (rule less_le_trans [OF unsigned_less]) simp

lemma map_option_append [simp]:
  "map_option ((@) []) opt = opt"
  "map_option ((@) [x]) opt = map_option (Cons x) opt"
  by (cases opt; simp)+

lemma size_minus_npos [simp]: "(n :: size_t) - npos - 1 = n"
  by simp

lemma conserve_append: "d @ p = p0 @ w \<Longrightarrow> ds @ p' = p @ ws \<Longrightarrow> (d @ ds) @ p' = p0 @ w @ ws"
  by (metis append_assoc)

lemma takeWhile_split:
  assumes "c \<in> set s"
  shows "takeWhile (\<lambda>x. x \<noteq> c) s @ c # drop (Suc (length (takeWhile (\<lambda>x. x \<noteq> c) s))) s = s"
  using assms by (induction s) auto

lemma length_takeWhile_less_mem:
  assumes "c \<in> set s"
  shows "length (takeWhile (\<lambda>x. x \<noteq> c) s) < length s"
  using assms by (induction s) auto

lemma takeWhile_line [simp]: "c \<notin> set l \<Longrightarrow> takeWhile (\<lambda>x. x \<noteq> c) (l @ c # r) = l"
  by (induction l) auto

lemma unat_find_char:
  assumes "c \<in> set s" and "length s < 2 ^ 64"
  shows "unat (find_char s c) = length (takeWhile (\<lambda>x. x \<noteq> c) s)"
    and "unat (find_char s c + 1) = Suc (length (takeWhile (\<lambda>x. x \<noteq> c) s))"
proof -
  let ?k = "length (takeWhile (\<lambda>x. x \<noteq> c) s)"
  have k: "Suc ?k < 2 ^ 64" using length_takeWhile_less_mem [OF assms(1)] assms(2) by linarith
  show "unat (find_char s c) = ?k" using assms k by (simp add: find_char_def)
  have "find_char s c + 1 = of_nat (Suc ?k)" using assms by (simp add: find_char_def)
  then show "unat (find_char s c + 1) = Suc ?k" using k by (simp only: unat_of_nat_size)
qed

end
