(* ===== verification/Logger.thy ===== *)
theory Logger
  imports Prelude
begin

text \<open>
  The logging facility of \<^verbatim>\<open>common/include/acs/util/Logger.hpp\<close> and
  \<^verbatim>\<open>common/src/util/Logger.cpp\<close>. An output stream is what was written to it and how much of it
  was flushed; \<^verbatim>\<open>/dev/null\<close> keeps nothing. The global state is the contents of every stream
  and the logger object that the static \<^verbatim>\<open>_instance\<close> points to.
\<close>

subsection \<open>Streams\<close>

datatype stream = Cout | Cerr | NullSink | Ostream nat

record ostream =
  os_data :: string
  os_flushed :: nat

record Logger =
  lg_out :: stream
  lg_errorOut :: stream

record logw =
  lw_streams :: "stream \<Rightarrow> ostream"
  lw_instance :: Logger

definition put :: "stream \<Rightarrow> string \<Rightarrow> logw \<Rightarrow> logw" where
  "put st s w =
     (if st = NullSink then w
      else w\<lparr>lw_streams := (lw_streams w)(st := (lw_streams w st)\<lparr>os_data := os_data (lw_streams w st) @ s\<rparr>)\<rparr>)"

definition flush_stream :: "stream \<Rightarrow> logw \<Rightarrow> logw" where
  "flush_stream st w =
     w\<lparr>lw_streams := (lw_streams w)(st := (lw_streams w st)\<lparr>os_flushed := length (os_data (lw_streams w st))\<rparr>)\<rparr>"

definition endl :: "stream \<Rightarrow> logw \<Rightarrow> logw" where
  "endl st w = flush_stream st (put st ''\<newline>'' w)"

subsection \<open>The Logger class\<close>

definition Logger_ctor :: "stream \<Rightarrow> stream \<Rightarrow> Logger" where
  [simp]: "Logger_ctor out errorOut = \<lparr>lg_out = out, lg_errorOut = errorOut\<rparr>"

text \<open>\<^verbatim>\<open>nullStream\<close> opens \<^verbatim>\<open>/dev/null\<close> once and returns the same stream ever after.\<close>

definition nullStream :: stream where
  [simp]: "nullStream = NullSink"

definition nullLogger :: Logger where
  "nullLogger = Logger_ctor nullStream nullStream"

text \<open>The state before \<^verbatim>\<open>main\<close>: nothing written, the null logger registered.\<close>

definition initial_logw :: logw where
  "initial_logw = \<lparr>lw_streams = (\<lambda>_. \<lparr>os_data = [], os_flushed = 0\<rparr>), lw_instance = nullLogger\<rparr>"

definition registerInstance :: "Logger \<Rightarrow> logw \<Rightarrow> logw" where
  "registerInstance lg w = w\<lparr>lw_instance := lg\<rparr>"

definition printLog :: "stream \<Rightarrow> string \<Rightarrow> bool \<Rightarrow> bool \<Rightarrow> logw \<Rightarrow> logw" where
  "printLog st message breakLine fl w =
     (let w1 = put st message w;
          w2 = (if breakLine then put st ''\<newline>'' w1 else w1)
      in if fl then flush_stream st w2 else w2)"

definition Logger_log_message :: "Logger \<Rightarrow> string \<Rightarrow> bool \<Rightarrow> bool \<Rightarrow> logw \<Rightarrow> logw" where
  "Logger_log_message lg message breakLine fl w = printLog (lg_out lg) message breakLine fl w"

definition Logger_logError_message :: "Logger \<Rightarrow> string \<Rightarrow> bool \<Rightarrow> bool \<Rightarrow> logw \<Rightarrow> logw" where
  "Logger_logError_message lg message breakLine fl w = printLog (lg_errorOut lg) message breakLine fl w"

text \<open>The free function \<^verbatim>\<open>log(message, out)\<close>.\<close>

definition log_to :: "string \<Rightarrow> stream \<Rightarrow> logw \<Rightarrow> logw" where
  "log_to message out w = endl out (put out message w)"

text \<open>
  The idioms \<^verbatim>\<open>Logger::instance().log() << s << std::endl\<close>, the same on
  \<^verbatim>\<open>logError()\<close>, and \<^verbatim>\<open>Logger::instance().log() << s\<close>.
\<close>

definition log_line :: "string \<Rightarrow> logw \<Rightarrow> logw" where
  "log_line s w = endl (lg_out (lw_instance w)) (put (lg_out (lw_instance w)) s w)"

definition logError_line :: "string \<Rightarrow> logw \<Rightarrow> logw" where
  "logError_line s w = endl (lg_errorOut (lw_instance w)) (put (lg_errorOut (lw_instance w)) s w)"

definition log_put :: "string \<Rightarrow> logw \<Rightarrow> logw" where
  "log_put s w = put (lg_out (lw_instance w)) s w"

definition stream_text :: "logw \<Rightarrow> stream \<Rightarrow> string" where
  "stream_text w st = os_data (lw_streams w st)"

text \<open>Both programs register a logger on the standard streams first.\<close>

definition std_logger :: Logger where
  "std_logger = Logger_ctor Cout Cerr"

subsection \<open>Lemmas\<close>

lemma lw_instance_unchanged [simp]:
  "lw_instance (put st s w) = lw_instance w"
  "lw_instance (flush_stream st w) = lw_instance w"
  "lw_instance (endl st w) = lw_instance w"
  "lw_instance (log_line s w) = lw_instance w"
  "lw_instance (logError_line s w) = lw_instance w"
  "lw_instance (log_put s w) = lw_instance w"
  by (simp_all add: put_def flush_stream_def endl_def log_line_def logError_line_def log_put_def)

lemma stream_text_put [simp]:
  "stream_text (put st s w) st' = (if st' = st \<and> st \<noteq> NullSink then stream_text w st @ s else stream_text w st')"
  by (simp add: stream_text_def put_def)

lemma stream_text_flush [simp]: "stream_text (flush_stream st w) st' = stream_text w st'"
  by (simp add: stream_text_def flush_stream_def)

lemma stream_text_endl [simp]:
  "stream_text (endl st w) st' =
     (if st' = st \<and> st \<noteq> NullSink then stream_text w st @ ''\<newline>'' else stream_text w st')"
  by (simp add: endl_def)

lemma stream_text_log_line:
  "stream_text (log_line s w) st =
     (if st = lg_out (lw_instance w) \<and> st \<noteq> NullSink then stream_text w st @ s @ ''\<newline>'' else stream_text w st)"
  by (simp add: log_line_def)

lemma stream_text_logError_line:
  "stream_text (logError_line s w) st =
     (if st = lg_errorOut (lw_instance w) \<and> st \<noteq> NullSink then stream_text w st @ s @ ''\<newline>'' else stream_text w st)"
  by (simp add: logError_line_def)

lemma stream_text_log_put:
  "stream_text (log_put s w) st =
     (if st = lg_out (lw_instance w) \<and> st \<noteq> NullSink then stream_text w st @ s else stream_text w st)"
  by (auto simp: log_put_def)

lemma stream_text_printLog:
  "stream_text (printLog st m bl fl w) st' =
     (if st' = st \<and> st \<noteq> NullSink then stream_text w st @ m @ (if bl then ''\<newline>'' else []) else stream_text w st')"
  by (simp add: printLog_def Let_def)

lemmas log_text_simps =
  stream_text_log_line stream_text_logError_line stream_text_log_put stream_text_printLog

lemma registerInstance_simps [simp]:
  "lw_instance (registerInstance lg w) = lg"
  "stream_text (registerInstance lg w) st = stream_text w st"
  by (simp_all add: registerInstance_def stream_text_def)

subsection \<open>Properties\<close>

text \<open>
  C40. Log output goes where it should: a message logged to a stream appears there with a line break
  and is flushed; before a logger is registered everything is discarded; and an error logged through
  the registered logger appears on its error stream only.
\<close>

theorem logger_output:
  "stream_text (log_to message (Ostream k) w) (Ostream k) = stream_text w (Ostream k) @ message @ ''\<newline>'' \<and>
   os_flushed (lw_streams (log_to message (Ostream k) w) (Ostream k)) =
     length (stream_text (log_to message (Ostream k) w) (Ostream k)) \<and>
   (\<forall>st. stream_text (log_line message initial_logw) st = []) \<and>
   stream_text (logError_line message (registerInstance std_logger w)) Cerr = stream_text w Cerr @ message @ ''\<newline>'' \<and>
   stream_text (logError_line message (registerInstance std_logger w)) Cout = stream_text w Cout"
  by (simp add: log_to_def endl_def flush_stream_def put_def stream_text_def log_line_def logError_line_def
      registerInstance_def initial_logw_def nullLogger_def std_logger_def)

end
