(* ===== verification/Protobuf.thy ===== *)
theory Protobuf
  imports Prelude
begin

text \<open>
  The messages of \<^verbatim>\<open>common/proto/framing.proto\<close> and \<^verbatim>\<open>common/proto/chat.proto\<close>, and the
  interface to the two libraries the program is built on. The classes that \<^verbatim>\<open>protoc\<close>
  generates, the Protobuf runtime and Asio are not part of the repository: the functions of them
  that the sources call are the fields of \<open>extlib\<close>, a parameter of every definition that
  uses one. What the program relies on is the locale \<open>protobuf\<close>.
\<close>

subsection \<open>Messages\<close>

record FramePrefix =
  fp_size :: uint32
  fp_type :: uint32

text \<open>
  Since proto3 kept unknown fields (release 3.5), a generated message carries, besides its declared
  fields, the fields that parsing found and the schema does not declare, as the bytes that
  serialization writes back. The server parses a request and serializes the same object again, so
  its answer returns them: they are the field \<open>cm_unknown\<close> of a \<^verbatim>\<open>ChatMessage\<close>. A
  \<^verbatim>\<open>FramePrefix\<close> that was parsed is only read, and one that is serialized is new, so its
  unknown fields are never seen and are left out.
\<close>

record ChatMessage =
  cm_id :: uint32
  cm_text :: string
  cm_type :: uint32
  cm_unknown :: string

text \<open>The message classes of the program behind a \<^verbatim>\<open>MessageLite\<close> reference.\<close>

datatype MessageLite =
    MFramePrefix FramePrefix
  | MChatMessage ChatMessage
  | MChatHistory "ChatMessage list"

definition FramePrefix_default :: FramePrefix where
  "FramePrefix_default = \<lparr>fp_size = 0, fp_type = 0\<rparr>"

definition ChatMessage_default :: ChatMessage where
  "ChatMessage_default = \<lparr>cm_id = 0, cm_text = [], cm_type = 0, cm_unknown = []\<rparr>"

text \<open>\<^verbatim>\<open>FramePrefix::MessageType\<close>\<close>

abbreviation (input) FramePrefix_ECHO :: uint32 where
  "FramePrefix_ECHO \<equiv> 1"

text \<open>\<^verbatim>\<open>ChatMessage::MessageType\<close>, an open enum: every 32-bit value can be received.\<close>

abbreviation (input) ChatMessage_NORMAL :: uint32 where "ChatMessage_NORMAL \<equiv> 0"
abbreviation (input) ChatMessage_URGENT :: uint32 where "ChatMessage_URGENT \<equiv> 1"
abbreviation (input) ChatMessage_EVENT_SETTER :: uint32 where "ChatMessage_EVENT_SETTER \<equiv> 2"
abbreviation (input) ChatMessage_EVENT_DELETER :: uint32 where "ChatMessage_EVENT_DELETER \<equiv> 3"
abbreviation (input) ChatMessage_ECHO_REQUEST :: uint32 where "ChatMessage_ECHO_REQUEST \<equiv> 4"
abbreviation (input) ChatMessage_ECHO_RESPONSE :: uint32 where "ChatMessage_ECHO_RESPONSE \<equiv> 5"
abbreviation (input) ChatMessage_TEST :: uint32 where "ChatMessage_TEST \<equiv> 14"

subsection \<open>The libraries as a parameter\<close>

text \<open>
  \<^item> \<open>pb_ByteSizeLong\<close>, \<open>pb_SerializeToString\<close> (\<open>None\<close>: the call returns
    \<^verbatim>\<open>false\<close>), \<open>pb_IsInitialized\<close>: methods of \<^verbatim>\<open>MessageLite\<close>;
  \<^item> \<open>pb_FramePrefix_ParseFromArray\<close> with the object left behind, which the program keeps in a
    cache even when parsing fails; \<open>pb_ChatMessage_ParseFromArray\<close> (\<open>None\<close>: failure, the
    object is dropped);
  \<^item> \<open>asio_eof\<close>, \<open>asio_no_buffer_space\<close>: the error codes the program compares with;
    \<open>what_of\<close>: the text of a \<^verbatim>\<open>std::system_error\<close> made from a code.
\<close>

record extlib =
  pb_ByteSizeLong :: "MessageLite \<Rightarrow> nat"
  pb_SerializeToString :: "MessageLite \<Rightarrow> string option"
  pb_IsInitialized :: "MessageLite \<Rightarrow> bool"
  pb_FramePrefix_ParseFromArray :: "string \<Rightarrow> int \<Rightarrow> bool \<times> FramePrefix"
  pb_ChatMessage_ParseFromArray :: "string \<Rightarrow> int \<Rightarrow> ChatMessage option"
  asio_eof :: error_code
  asio_no_buffer_space :: error_code
  what_of :: "error_code \<Rightarrow> string"

text \<open>
  The documented behaviour the program relies on. A proto3 field with its default value is not
  written; a \<^verbatim>\<open>fixed32\<close> field takes a tag byte and four bytes; the fields of a
  \<^verbatim>\<open>ChatMessage\<close> take a tag and at most five (\<^verbatim>\<open>uint32\<close>, length) or ten (enum) bytes of
  varint; unknown fields are written back as they were kept. Parsing restores what was written, for
  a text that is valid UTF-8 and for unknown fields that are none or were kept by parsing; the text
  of a parsed message is valid UTF-8. Serialization fails only on messages of 2 GiB and more.
\<close>

definition unknown_ok :: "extlib \<Rightarrow> string \<Rightarrow> bool" where
  "unknown_ok L u \<longleftrightarrow> u = [] \<or> (\<exists>d n m. pb_ChatMessage_ParseFromArray L d n = Some m \<and> cm_unknown m = u)"

lemma unknown_ok_Nil [simp]: "unknown_ok L []"
  by (simp add: unknown_ok_def)

lemma unknown_ok_parsed: "pb_ChatMessage_ParseFromArray L d n = Some m \<Longrightarrow> unknown_ok L (cm_unknown m)"
  by (auto simp: unknown_ok_def)

locale protobuf =
  fixes L :: extlib
    and utf8 :: "string \<Rightarrow> bool"
  assumes byte_size: "pb_SerializeToString L m = Some bs \<Longrightarrow> pb_ByteSizeLong L m = length bs"
    and serialize_total: "pb_ByteSizeLong L m < 2 ^ 31 \<Longrightarrow> \<exists>bs. pb_SerializeToString L m = Some bs"
    and serialize_limit: "pb_SerializeToString L m = Some bs \<Longrightarrow> length bs < 2 ^ 31"
    and prefix_size: "pb_ByteSizeLong L (MFramePrefix p) =
        (if fp_size p = 0 then 0 else 5) + (if fp_type p = 0 then 0 else 5)"
    and prefix_initialized: "pb_IsInitialized L (MFramePrefix p)"
    and prefix_parse: "pb_SerializeToString L (MFramePrefix p) = Some bs \<Longrightarrow>
        pb_FramePrefix_ParseFromArray L (bs @ rest) (int (length bs)) = (True, p)"
    and chat_size_le: "length (cm_text cm) < 2 ^ 31 \<Longrightarrow>
        pb_ByteSizeLong L (MChatMessage cm) \<le> length (cm_text cm) + length (cm_unknown cm) + 23"
    and chat_size_default: "pb_ByteSizeLong L (MChatMessage cm) = 0 \<longleftrightarrow> cm = ChatMessage_default"
    and chat_parse: "pb_SerializeToString L (MChatMessage cm) = Some bs \<Longrightarrow> utf8 (cm_text cm) \<Longrightarrow>
        unknown_ok L (cm_unknown cm) \<Longrightarrow> pb_ChatMessage_ParseFromArray L (bs @ rest) (int (length bs)) = Some cm"
    and chat_text_utf8: "pb_ChatMessage_ParseFromArray L d n = Some cm \<Longrightarrow> utf8 (cm_text cm)"
    and utf8_ascii: "\<forall>c \<in> set t. of_char c < (128 :: nat) \<Longrightarrow> utf8 t"
    and eof_failed: "failed (asio_eof L)"
    and no_buffer_space_failed: "failed (asio_no_buffer_space L)"
    and eof_not_no_buffer_space: "asio_eof L \<noteq> asio_no_buffer_space L"
begin

lemma prefix_serialize:
  obtains bs where "pb_SerializeToString L (MFramePrefix p) = Some bs"
    and "length bs = (if fp_size p = 0 then 0 else 5) + (if fp_type p = 0 then 0 else 5)"
proof -
  have "pb_ByteSizeLong L (MFramePrefix p) < 2 ^ 31" by (simp add: prefix_size)
  from serialize_total [OF this] obtain bs where bs: "pb_SerializeToString L (MFramePrefix p) = Some bs"
    by blast
  with byte_size [OF bs] show thesis by (intro that [of bs]) (simp_all add: prefix_size)
qed

lemma chat_serialize:
  assumes "length (cm_text m) + length (cm_unknown m) + 23 < 2 ^ 31"
  obtains bs where "pb_SerializeToString L (MChatMessage m) = Some bs"
    and "length bs = pb_ByteSizeLong L (MChatMessage m)"
    and "length bs \<le> length (cm_text m) + length (cm_unknown m) + 23"
proof -
  from assms chat_size_le [of m] have "pb_ByteSizeLong L (MChatMessage m) < 2 ^ 31" by linarith
  from serialize_total [OF this] obtain bs where bs: "pb_SerializeToString L (MChatMessage m) = Some bs"
    by blast
  with byte_size [OF bs] chat_size_le [of m] assms show thesis by (intro that [of bs]) simp_all
qed

lemma chat_size_pos: "cm_type m \<noteq> 0 \<Longrightarrow> 0 < pb_ByteSizeLong L (MChatMessage m)"
  using chat_size_default [of m] by (auto simp: ChatMessage_default_def)

end

end
