(* ===== verification/Wire.thy ===== *)
theory Wire
  imports Protobuf
begin

text \<open>
  An instance of the library parameter: the proto3 wire format for the two schemas of
  \<^verbatim>\<open>common/proto\<close>. Every field is a tag (field number and wire type) and a value: a base-128
  varint, four or eight little-endian bytes, or a length and that many bytes. The theory shows that
  the laws of locale \<open>protobuf\<close> hold together, and the witnesses of the properties are
  evaluated on it.
\<close>

subsection \<open>Values\<close>

fun varint :: "nat \<Rightarrow> string" where
  "varint n = (if n < 128 then [char_of n] else char_of (128 + n mod 128) # varint (n div 128))"

fun get_varint :: "nat \<Rightarrow> string \<Rightarrow> (nat \<times> string) option" where
  "get_varint 0 s = None"
| "get_varint (Suc k) [] = None"
| "get_varint (Suc k) (c # s) =
     (if of_char c < (128 :: nat) then Some (of_char c, s)
      else (case get_varint k s of
              None \<Rightarrow> None
            | Some (n, r) \<Rightarrow> Some (of_char c - 128 + 128 * n, r)))"

definition fixed32 :: "uint32 \<Rightarrow> string" where
  "fixed32 w = (let n = unat w in
     [char_of (n mod 256), char_of (n div 256 mod 256), char_of (n div 65536 mod 256),
      char_of (n div 16777216 mod 256)])"

fun get_fixed32 :: "string \<Rightarrow> (nat \<times> string) option" where
  "get_fixed32 (a # b # c # d # s) =
     Some (of_char a + 256 * of_char b + 65536 * of_char c + 16777216 * of_char d, s)"
| "get_fixed32 s = None"

subsection \<open>UTF-8\<close>

definition cont :: "char \<Rightarrow> bool" where
  "cont c = (128 \<le> (of_char c :: nat) \<and> of_char c < (192 :: nat))"

fun valid_utf8 :: "string \<Rightarrow> bool" where
  "valid_utf8 [] = True"
| "valid_utf8 (a # s) =
     (let n = of_char a :: nat in
      if n < 128 then valid_utf8 s
      else (case s of
        [] \<Rightarrow> False
      | b # s1 \<Rightarrow>
         if \<not> cont b \<or> n < 194 \<or> 244 < n then False
         else if n < 224 then valid_utf8 s1
         else (case s1 of
           [] \<Rightarrow> False
         | c # s2 \<Rightarrow>
            if \<not> cont c then False
            else if n < 240 then
              (n = 224 \<longrightarrow> 160 \<le> (of_char b :: nat)) \<and> (n = 237 \<longrightarrow> of_char b < (160 :: nat)) \<and> valid_utf8 s2
            else (case s2 of
              [] \<Rightarrow> False
            | d # s3 \<Rightarrow>
               cont d \<and> (n = 240 \<longrightarrow> 144 \<le> (of_char b :: nat)) \<and> (n = 244 \<longrightarrow> of_char b < (144 :: nat))
                 \<and> valid_utf8 s3))))"

subsection \<open>Fields\<close>

datatype wire_value = VVarint nat | VFixed64 string | VLen string | VFixed32 nat

type_synonym field = "nat \<times> wire_value"

text \<open>One field: a tag, then a value by the wire type in its low three bits.\<close>

definition get_field :: "string \<Rightarrow> (field \<times> string) option" where
  "get_field s =
     (case get_varint 10 s of
        None \<Rightarrow> None
      | Some (t, r) \<Rightarrow>
         (if t div 8 = 0 then None
          else if t mod 8 = 0 then
            (case get_varint 10 r of None \<Rightarrow> None | Some (n, r') \<Rightarrow> Some ((t div 8, VVarint n), r'))
          else if t mod 8 = 1 then
            (if length r < 8 then None else Some ((t div 8, VFixed64 (take 8 r)), drop 8 r))
          else if t mod 8 = 2 then
            (case get_varint 10 r of
               None \<Rightarrow> None
             | Some (n, r') \<Rightarrow>
                 (if length r' < n then None else Some ((t div 8, VLen (take n r')), drop n r')))
          else if t mod 8 = 5 then
            (case get_fixed32 r of None \<Rightarrow> None | Some (n, r') \<Rightarrow> Some ((t div 8, VFixed32 n), r'))
          else None))"

definition tag :: "nat \<Rightarrow> nat \<Rightarrow> nat" where
  "tag k t = 8 * k + t"

text \<open>The bytes of a field, as they are written back for one that the schema does not declare.\<close>

fun put_field :: "field \<Rightarrow> string" where
  "put_field (k, VVarint n) = varint (tag k 0) @ varint n"
| "put_field (k, VFixed64 s) = varint (tag k 1) @ s"
| "put_field (k, VLen s) = varint (tag k 2) @ varint (length s) @ s"
| "put_field (k, VFixed32 n) = varint (tag k 5) @ fixed32 (of_nat n)"

text \<open>A field takes at least one byte, so the length of the input is enough fuel.\<close>

fun get_fields :: "nat \<Rightarrow> string \<Rightarrow> field list option" where
  "get_fields fuel [] = Some []"
| "get_fields 0 (c # s) = None"
| "get_fields (Suc fuel) (c # s) =
     (case get_field (c # s) of
        None \<Rightarrow> None
      | Some (f, r) \<Rightarrow> map_option (Cons f) (get_fields fuel r))"

definition parse_fields :: "string \<Rightarrow> field list option" where
  "parse_fields s = get_fields (length s) s"

subsection \<open>Messages\<close>

definition enc_fixed32 :: "nat \<Rightarrow> uint32 \<Rightarrow> string" where
  "enc_fixed32 k w = (if w = 0 then [] else varint (tag k 5) @ fixed32 w)"

definition enc_uint32 :: "nat \<Rightarrow> uint32 \<Rightarrow> string" where
  "enc_uint32 k w = (if w = 0 then [] else varint (tag k 0) @ varint (unat w))"

text \<open>An enum is sign-extended to 64 bits.\<close>

definition enc_enum :: "nat \<Rightarrow> uint32 \<Rightarrow> string" where
  "enc_enum k w = (if w = 0 then [] else varint (tag k 0) @ varint (unat (scast w :: 64 word)))"

definition enc_string :: "nat \<Rightarrow> string \<Rightarrow> string" where
  "enc_string k s = (if s = [] then [] else varint (tag k 2) @ varint (length s) @ s)"

definition enc_FramePrefix :: "FramePrefix \<Rightarrow> string" where
  "enc_FramePrefix p = enc_fixed32 1 (fp_size p) @ enc_fixed32 3 (fp_type p)"

definition enc_ChatMessage :: "ChatMessage \<Rightarrow> string" where
  "enc_ChatMessage m = enc_uint32 1 (cm_id m) @ enc_string 2 (cm_text m) @ enc_enum 15 (cm_type m) @ cm_unknown m"

fun enc_MessageLite :: "MessageLite \<Rightarrow> string" where
  "enc_MessageLite (MFramePrefix p) = enc_FramePrefix p"
| "enc_MessageLite (MChatMessage m) = enc_ChatMessage m"
| "enc_MessageLite (MChatHistory ms) =
     concat (map (\<lambda>m. varint (tag 1 2) @ varint (length (enc_ChatMessage m)) @ enc_ChatMessage m) ms)"

text \<open>
  A later field of the same number wins. Fields of other numbers or types are unknown: those of a
  \<^verbatim>\<open>ChatMessage\<close> are kept, in the order they came.
\<close>

fun set_prefix_field :: "field \<Rightarrow> FramePrefix \<Rightarrow> FramePrefix" where
  "set_prefix_field (k, VFixed32 n) p =
     (if k = 1 then p\<lparr>fp_size := of_nat n\<rparr> else if k = 3 then p\<lparr>fp_type := of_nat n\<rparr> else p)"
| "set_prefix_field _ p = p"

fun chat_field :: "field \<Rightarrow> bool" where
  "chat_field (k, VVarint n) = (k = 1 \<or> k = 15)"
| "chat_field (k, VLen s) = (k = 2)"
| "chat_field _ = False"

fun set_chat_field :: "field \<Rightarrow> ChatMessage \<Rightarrow> ChatMessage" where
  "set_chat_field (k, VVarint n) m =
     (if k = 1 then m\<lparr>cm_id := of_nat n\<rparr> else if k = 15 then m\<lparr>cm_type := of_nat n\<rparr>
      else m\<lparr>cm_unknown := cm_unknown m @ put_field (k, VVarint n)\<rparr>)"
| "set_chat_field (k, VLen s) m =
     (if k = 2 then m\<lparr>cm_text := s\<rparr> else m\<lparr>cm_unknown := cm_unknown m @ put_field (k, VLen s)\<rparr>)"
| "set_chat_field f m = m\<lparr>cm_unknown := cm_unknown m @ put_field f\<rparr>"

definition dec_FramePrefix :: "string \<Rightarrow> FramePrefix option" where
  "dec_FramePrefix s = map_option (\<lambda>fs. fold set_prefix_field fs FramePrefix_default) (parse_fields s)"

definition dec_ChatMessage :: "string \<Rightarrow> ChatMessage option" where
  "dec_ChatMessage s =
     (case parse_fields s of
        None \<Rightarrow> None
      | Some fs \<Rightarrow> (let m = fold set_chat_field fs ChatMessage_default
                   in if valid_utf8 (cm_text m) then Some m else None))"

definition wire_lib :: extlib where
  "wire_lib = \<lparr>
     pb_ByteSizeLong = (\<lambda>m. length (enc_MessageLite m)),
     pb_SerializeToString = (\<lambda>m. if length (enc_MessageLite m) < 2 ^ 31 then Some (enc_MessageLite m) else None),
     pb_IsInitialized = (\<lambda>m. True),
     pb_FramePrefix_ParseFromArray = (\<lambda>s n.
        case dec_FramePrefix (take (nat n) s) of None \<Rightarrow> (False, FramePrefix_default) | Some p \<Rightarrow> (True, p)),
     pb_ChatMessage_ParseFromArray = (\<lambda>s n. dec_ChatMessage (take (nat n) s)),
     asio_eof = \<lparr>ec_category = ''asio.misc'', ec_value = 2\<rparr>,
     asio_no_buffer_space = \<lparr>ec_category = ''system'', ec_value = 105\<rparr>,
     what_of = (\<lambda>ec. ''error'')\<rparr>"

subsection \<open>Lemmas on values\<close>

declare varint.simps [simp del]

lemma varint_not_Nil [simp]: "varint n \<noteq> []"
  by (subst varint.simps) simp

lemma get_varint_varint: "0 < k \<Longrightarrow> n < 128 ^ k \<Longrightarrow> get_varint k (varint n @ s) = Some (n, s)"
proof (induction k arbitrary: n)
  case 0
  then show ?case by simp
next
  case (Suc k)
  show ?case
  proof (cases "n < 128")
    case True
    then show ?thesis by (subst varint.simps) simp
  next
    case False
    with Suc.prems have "0 < k" by (cases k) auto
    moreover from Suc.prems have "n div 128 < 128 ^ k" by (simp add: less_mult_imp_div_less mult.commute)
    ultimately have IH: "get_varint k (varint (n div 128) @ s) = Some (n div 128, s)" using Suc.IH by blast
    have c: "of_char (char_of (128 + n mod 128)) = 128 + n mod 128" by simp
    from False show ?thesis by (subst varint.simps) (simp add: c IH)
  qed
qed

lemma length_varint: "0 < k \<Longrightarrow> n < 128 ^ k \<Longrightarrow> length (varint n) \<le> k"
proof (induction k arbitrary: n)
  case 0
  then show ?case by simp
next
  case (Suc k)
  show ?case
  proof (cases "n < 128")
    case True
    then show ?thesis by (subst varint.simps) simp
  next
    case False
    with Suc.prems have "k \<noteq> 0" by (cases k) auto
    moreover from Suc.prems have "n div 128 < 128 ^ k" by (simp add: less_mult_imp_div_less mult.commute)
    ultimately have "length (varint (n div 128)) \<le> k" using Suc.IH by blast
    with False show ?thesis by (subst varint.simps) simp
  qed
qed

lemma base256_digits:
  "(n :: nat) mod 256 + 256 * (n div 256 mod 256) + 65536 * (n div 65536 mod 256)
    + 16777216 * (n div 16777216) = n"
proof -
  let ?a = "n div 256" let ?b = "?a div 256" let ?c = "?b div 256"
  have d: "n div 65536 = ?b" "n div 16777216 = ?c" by (simp_all flip: div_mult2_eq)
  have "n = n mod 256 + 256 * ?a" "?a = ?a mod 256 + 256 * ?b" "?b = ?b mod 256 + 256 * ?c" by simp_all
  then show ?thesis unfolding d by linarith
qed

lemma get_fixed32_fixed32: "get_fixed32 (fixed32 w @ s) = Some (unat w, s)"
proof -
  have "unat w < 2 ^ 32" using unsigned_less [of w] by simp
  then have "unat w div 16777216 < 256" by (simp add: less_mult_imp_div_less)
  then show ?thesis using base256_digits [of "unat w"] by (simp add: fixed32_def Let_def)
qed

lemma length_fixed32 [simp]: "length (fixed32 w) = 4"
  by (simp add: fixed32_def Let_def)

lemma valid_utf8_ascii: "\<forall>c \<in> set t. of_char c < (128 :: nat) \<Longrightarrow> valid_utf8 t"
  by (induction t) auto

subsection \<open>Lemmas on fields\<close>

lemma get_varint_shorter: "get_varint k s = Some (n, r) \<Longrightarrow> length r < length s"
  by (induction k s arbitrary: n r rule: get_varint.induct) (fastforce split: if_splits option.splits)+

lemma get_fixed32_shorter: "get_fixed32 s = Some (n, r) \<Longrightarrow> length r < length s"
  by (cases s rule: get_fixed32.cases) auto

lemma get_field_shorter: "get_field s = Some (f, r) \<Longrightarrow> length r < length s"
  by (auto simp: get_field_def split: option.splits if_splits
      dest!: get_varint_shorter get_fixed32_shorter; arith)

lemma get_fields_fuel:
  "length s \<le> fuel \<Longrightarrow> length s \<le> fuel' \<Longrightarrow> get_fields fuel s = get_fields fuel' s"
proof (induction fuel s arbitrary: fuel' rule: get_fields.induct)
  case (3 fuel c s)
  then obtain k where k: "fuel' = Suc k" by (cases fuel') auto
  show ?case
  proof (cases "get_field (c # s)")
    case None
    then show ?thesis by (simp add: k)
  next
    case (Some a)
    obtain f r where a: "a = (f, r)" by fastforce
    with Some have "length r < length (c # s)" by (auto dest: get_field_shorter)
    then have "get_fields fuel r = get_fields k r"
      using 3 Some a k by (intro "3.IH") auto
    then show ?thesis by (simp add: k Some a)
  qed
qed auto

lemma parse_fields_Nil [simp]: "parse_fields [] = Some []"
  by (simp add: parse_fields_def)

lemma parse_fields_step:
  assumes "get_field s = Some (f, r)"
  shows "parse_fields s = map_option (Cons f) (parse_fields r)"
proof -
  from get_field_shorter [OF assms] obtain c s' where s: "s = c # s'" and len: "length r \<le> length s'"
    by (cases s) auto
  from len have "get_fields (length s') r = get_fields (length r) r" by (intro get_fields_fuel) auto
  with assms show ?thesis by (simp add: parse_fields_def s)
qed

lemma tag_simps [simp]: "t < 8 \<Longrightarrow> tag k t div 8 = k" "t < 8 \<Longrightarrow> tag k t mod 8 = t"
  by (simp_all add: tag_def)

lemma get_tag [simp]:
  assumes "k < 16" and "t < 8"
  shows "get_varint 10 (varint (tag k t) @ s) = Some (tag k t, s)"
  using assms by (intro get_varint_varint) (auto simp: tag_def)

lemma unat_varint: "unat (w :: uint32) < 128 ^ 10" "unat (v :: 64 word) < 128 ^ 10"
  using unat_u32_less [of w] unat_u64_less [of v] by simp_all

lemma parse_enc_fixed32:
  assumes "0 < k" and "k < 16"
  shows "parse_fields (enc_fixed32 k w @ s) =
    map_option ((@) (if w = 0 then [] else [(k, VFixed32 (unat w))])) (parse_fields s)"
proof (cases "w = 0")
  case False
  have "get_field (varint (tag k 5) @ fixed32 w @ s) = Some ((k, VFixed32 (unat w)), s)"
    using assms by (simp add: get_field_def get_fixed32_fixed32)
  from parse_fields_step [OF this] False show ?thesis by (simp add: enc_fixed32_def)
qed (simp add: enc_fixed32_def)

lemma get_field_varint:
  assumes "0 < k" and "k < 16" and "n < 128 ^ 10"
  shows "get_field (varint (tag k 0) @ varint n @ s) = Some ((k, VVarint n), s)"
  using assms by (simp add: get_field_def get_varint_varint)

lemma parse_enc_uint32:
  assumes "0 < k" and "k < 16"
  shows "parse_fields (enc_uint32 k w @ s) =
    map_option ((@) (if w = 0 then [] else [(k, VVarint (unat w))])) (parse_fields s)"
  using assms parse_fields_step [OF get_field_varint [OF assms unat_varint(1)]]
  by (simp add: enc_uint32_def)

lemma parse_enc_enum:
  assumes "0 < k" and "k < 16"
  shows "parse_fields (enc_enum k w @ s) =
    map_option ((@) (if w = 0 then [] else [(k, VVarint (unat (scast w :: 64 word)))])) (parse_fields s)"
  using assms parse_fields_step [OF get_field_varint [OF assms unat_varint(2)]]
  by (simp add: enc_enum_def)

lemma parse_enc_string:
  assumes "0 < k" and "k < 16" and "length t < 128 ^ 10"
  shows "parse_fields (enc_string k t @ s) =
    map_option ((@) (if t = [] then [] else [(k, VLen t)])) (parse_fields s)"
proof (cases "t = []")
  case False
  have "get_field (varint (tag k 2) @ varint (length t) @ t @ s) = Some ((k, VLen t), s)"
    using assms by (simp add: get_field_def get_varint_varint)
  from parse_fields_step [OF this] False show ?thesis by (simp add: enc_string_def)
qed (simp add: enc_string_def)

subsection \<open>Unknown fields\<close>

text \<open>What a field that was read satisfies; written back, it is read again.\<close>

fun field_ok :: "field \<Rightarrow> bool" where
  "field_ok (k, v) = (0 < k \<and> k < 2 ^ 67 \<and>
     (case v of VVarint n \<Rightarrow> n < 128 ^ 10 | VFixed64 s \<Rightarrow> length s = 8 | VLen s \<Rightarrow> length s < 128 ^ 10
      | VFixed32 n \<Rightarrow> n < 2 ^ 32))"

lemma of_char_less: "of_char c < (256 :: nat)"
  by simp

lemma get_varint_less: "get_varint k s = Some (n, r) \<Longrightarrow> n < 128 ^ k"
proof (induction k s arbitrary: n r rule: get_varint.induct)
  case (3 k c s)
  show ?case
  proof (cases "of_char c < (128 :: nat)")
    case True
    with "3.prems" have "n < 128" by simp
    also have "(128 :: nat) \<le> 128 ^ Suc k" by simp
    finally show ?thesis .
  next
    case False
    with "3.prems" obtain n' where n': "get_varint k s = Some (n', r)" "n = of_char c - 128 + 128 * n'"
      by (auto split: option.splits)
    have "of_char c - 128 < (128 :: nat)" using of_char_less [of c] by linarith
    moreover have "n' < 128 ^ k" using "3.IH" [OF False n'(1)] .
    ultimately show ?thesis unfolding n'(2) power_Suc by linarith
  qed
qed simp_all

lemma get_fixed32_less: "get_fixed32 s = Some (n, r) \<Longrightarrow> n < 2 ^ 32"
proof (cases s rule: get_fixed32.cases)
  case (1 a b c d s')
  assume "get_fixed32 s = Some (n, r)"
  with 1 have "n = of_char a + 256 * of_char b + 65536 * of_char c + 16777216 * of_char d" by simp
  then show ?thesis using of_char_less [of a] of_char_less [of b] of_char_less [of c] of_char_less [of d] by (simp, linarith)
qed simp_all

lemma get_varint_10: "get_varint 10 s = Some (t, r) \<Longrightarrow> t < 128 ^ 10 \<and> t div 8 < 2 ^ 67"
  using get_varint_less [of 10 s t r] by (simp add: less_mult_imp_div_less)

lemma get_field_ok: "get_field s = Some (f, r) \<Longrightarrow> field_ok f"
  by (auto simp: get_field_def split: option.splits if_splits dest!: get_varint_10 get_fixed32_less)

lemma tag_less: "k < 2 ^ 67 \<Longrightarrow> t < 8 \<Longrightarrow> tag k t < 128 ^ 10"
  by (simp add: tag_def)

lemma get_put_field:
  assumes "field_ok f"
  shows "get_field (put_field f @ s) = Some (f, s)"
proof -
  have "get_varint 10 (varint (tag k t) @ x) = Some (tag k t, x)" if "k < 2 ^ 67" "t < 8" for k t x
    using tag_less [OF that] by (intro get_varint_varint) simp_all
  with assms show ?thesis
    by (cases f rule: put_field.cases)
      (simp_all add: get_field_def get_varint_varint get_fixed32_fixed32 unat_of_nat take_bit_nat_eq_self)
qed

lemma parse_put_fields:
  "list_all field_ok fs \<Longrightarrow> parse_fields (concat (map put_field fs)) = Some fs"
  by (induction fs) (auto simp: parse_fields_step [OF get_put_field])

lemma get_fields_ok: "get_fields k s = Some fs \<Longrightarrow> list_all field_ok fs"
  by (induction k s arbitrary: fs rule: get_fields.induct)
    (auto split: option.splits dest: get_field_ok)

lemma set_unknown_field: "\<not> chat_field f \<Longrightarrow> set_chat_field f m = m\<lparr>cm_unknown := cm_unknown m @ put_field f\<rparr>"
  by (cases f rule: chat_field.cases) auto

lemma set_known_field: "chat_field f \<Longrightarrow> cm_unknown (set_chat_field f m) = cm_unknown m"
  by (cases f rule: chat_field.cases) auto

lemma unknown_of_fields:
  "cm_unknown (fold set_chat_field fs m) = cm_unknown m @ concat (map put_field (filter (Not \<circ> chat_field) fs))"
  by (induction fs arbitrary: m) (auto simp: set_unknown_field set_known_field)

lemma set_unknown_fields:
  "list_all (Not \<circ> chat_field) fs \<Longrightarrow>
    fold set_chat_field fs m = m\<lparr>cm_unknown := cm_unknown m @ concat (map put_field fs)\<rparr>"
  by (induction fs arbitrary: m) (auto simp: set_unknown_field)

definition unknown_fields :: "string \<Rightarrow> bool" where
  "unknown_fields u \<longleftrightarrow> (\<exists>fs. u = concat (map put_field fs) \<and> list_all field_ok fs \<and> list_all (Not \<circ> chat_field) fs)"

lemma dec_unknown: "dec_ChatMessage s = Some m \<Longrightarrow> unknown_fields (cm_unknown m)"
proof -
  assume "dec_ChatMessage s = Some m"
  then obtain fs where fs: "parse_fields s = Some fs" "m = fold set_chat_field fs ChatMessage_default"
    by (auto simp: dec_ChatMessage_def Let_def split: option.splits if_splits)
  have "list_all field_ok fs" using fs(1) by (auto simp: parse_fields_def dest: get_fields_ok)
  then show ?thesis unfolding unknown_fields_def fs(2) unknown_of_fields
    by (intro exI [of _ "filter (Not \<circ> chat_field) fs"]) (auto simp: ChatMessage_default_def list_all_iff)
qed

subsection \<open>The laws of the interface\<close>

lemma length_enc_fixed32: "k < 16 \<Longrightarrow> length (enc_fixed32 k w) = (if w = 0 then 0 else 5)"
  by (simp add: enc_fixed32_def tag_def varint.simps)

lemma length_varint_u32: "length (varint (unat (w :: uint32))) \<le> 5"
  using unat_u32_less [of w] by (intro length_varint) simp_all

lemma length_varint_u64: "length (varint (unat (w :: 64 word))) \<le> 10"
  using unat_u64_less [of w] by (intro length_varint) simp_all

lemma length_varint_tag: "k < 16 \<Longrightarrow> t < 8 \<Longrightarrow> length (varint (tag k t)) = 1"
  by (simp add: tag_def varint.simps)

lemma length_varint_len: "n < 2 ^ 31 \<Longrightarrow> length (varint n) \<le> 5"
  by (intro length_varint) simp_all

lemma dec_enc_FramePrefix: "dec_FramePrefix (enc_FramePrefix p) = Some p"
  using parse_enc_fixed32 [of 3 "fp_type p" "[]"]
  by (simp add: dec_FramePrefix_def enc_FramePrefix_def parse_enc_fixed32 FramePrefix_default_def)

lemma ucast_scast_u32: "(ucast (scast (w :: uint32) :: 64 word) :: uint32) = w"
  by (rule bit_word_eqI) (simp add: bit_ucast_iff bit_signed_iff)

lemma dec_enc_ChatMessage:
  assumes "length (cm_text m) < 128 ^ 10" and "valid_utf8 (cm_text m)" and "unknown_fields (cm_unknown m)"
  shows "dec_ChatMessage (enc_ChatMessage m) = Some m"
proof -
  obtain fs where fs: "cm_unknown m = concat (map put_field fs)" "list_all field_ok fs" "list_all (Not \<circ> chat_field) fs"
    using assms(3) by (auto simp: unknown_fields_def)
  note enum = parse_enc_enum [of 15 "cm_type m" "concat (map put_field fs)"]
  show ?thesis
    using assms(1,2) enum parse_put_fields [OF fs(2)] fs(1)
    by (simp add: dec_ChatMessage_def enc_ChatMessage_def parse_enc_uint32 parse_enc_string
        ChatMessage_default_def ucast_scast_u32 Let_def set_unknown_fields [OF fs(3)])
qed

lemma length_enc_ChatMessage:
  assumes "length (cm_text m) < 2 ^ 31"
  shows "length (enc_ChatMessage m) \<le> length (cm_text m) + length (cm_unknown m) + 23"
proof -
  have "length (enc_uint32 1 (cm_id m)) \<le> 6"
    using length_varint_u32 [of "cm_id m"] by (simp add: enc_uint32_def length_varint_tag)
  moreover have "length (enc_string 2 (cm_text m)) \<le> 6 + length (cm_text m)"
    using length_varint_len [OF assms] by (simp add: enc_string_def length_varint_tag)
  moreover have "length (enc_enum 15 (cm_type m)) \<le> 11"
    using length_varint_u64 [of "scast (cm_type m)"] by (simp add: enc_enum_def length_varint_tag)
  ultimately show ?thesis by (simp add: enc_ChatMessage_def)
qed

lemma enc_ChatMessage_Nil: "enc_ChatMessage m = [] \<longleftrightarrow> m = ChatMessage_default"
  by (cases m) (auto simp: enc_ChatMessage_def enc_uint32_def enc_string_def enc_enum_def ChatMessage_default_def)

lemma length_text_enc: "length (cm_text m) \<le> length (enc_ChatMessage m)"
  by (simp add: enc_ChatMessage_def enc_string_def)

lemma wire_unknown: "unknown_ok wire_lib u \<Longrightarrow> unknown_fields u"
  using dec_unknown by (auto simp: unknown_ok_def wire_lib_def unknown_fields_def intro: exI [of _ "[]"])

interpretation wire: protobuf wire_lib valid_utf8
proof unfold_locales
  fix m bs
  assume "pb_SerializeToString wire_lib m = Some bs"
  then show "pb_ByteSizeLong wire_lib m = length bs" by (auto simp: wire_lib_def split: if_splits)
next
  fix m
  assume "pb_ByteSizeLong wire_lib m < 2 ^ 31"
  then show "\<exists>bs. pb_SerializeToString wire_lib m = Some bs" by (simp add: wire_lib_def)
next
  fix p
  show "pb_ByteSizeLong wire_lib (MFramePrefix p) =
      (if fp_size p = 0 then 0 else 5) + (if fp_type p = 0 then 0 else 5)"
    by (simp add: wire_lib_def enc_FramePrefix_def length_enc_fixed32)
next
  fix p bs rest
  assume "pb_SerializeToString wire_lib (MFramePrefix p) = Some bs"
  then show "pb_FramePrefix_ParseFromArray wire_lib (bs @ rest) (int (length bs)) = (True, p)"
    by (auto simp: wire_lib_def dec_enc_FramePrefix split: if_splits)
next
  fix m :: ChatMessage and bs rest
  assume "pb_SerializeToString wire_lib (MChatMessage m) = Some bs" and u: "valid_utf8 (cm_text m)"
    and k: "unknown_ok wire_lib (cm_unknown m)"
  then have bs: "bs = enc_ChatMessage m" and len: "length (enc_ChatMessage m) < 2 ^ 31"
    by (auto simp: wire_lib_def split: if_splits)
  from k have "unknown_fields (cm_unknown m)" by (rule wire_unknown)
  moreover from len length_text_enc [of m] have "length (cm_text m) < 128 ^ 10" by simp
  ultimately show "pb_ChatMessage_ParseFromArray wire_lib (bs @ rest) (int (length bs)) = Some m"
    using dec_enc_ChatMessage u by (simp add: wire_lib_def bs)
next
  fix d n m
  assume "pb_ChatMessage_ParseFromArray wire_lib d n = Some m"
  then show "valid_utf8 (cm_text m)"
    by (auto simp: wire_lib_def dec_ChatMessage_def Let_def split: option.splits if_splits)
qed (auto simp: wire_lib_def failed_def length_enc_ChatMessage enc_ChatMessage_Nil split: if_splits
  intro: valid_utf8_ascii)

text \<open>Any sequence of undeclared fields can be carried, for instance a field of number 3.\<close>

lemma unknown_fields_ok: "unknown_fields u \<Longrightarrow> unknown_ok wire_lib u"
  using dec_enc_ChatMessage [of "ChatMessage_default\<lparr>cm_unknown := u\<rparr>"]
  by (intro unknown_ok_parsed [where d = "enc_ChatMessage (ChatMessage_default\<lparr>cm_unknown := u\<rparr>)"
        and n = "int (length (enc_ChatMessage (ChatMessage_default\<lparr>cm_unknown := u\<rparr>)))"
        and m = "ChatMessage_default\<lparr>cm_unknown := u\<rparr>", simplified])
    (simp add: wire_lib_def ChatMessage_default_def)

definition sample_unknown :: string where
  "sample_unknown = put_field (3, VVarint 1)"

lemma sample_unknown_ok: "unknown_ok wire_lib sample_unknown"
  by (rule unknown_fields_ok) (auto simp: unknown_fields_def sample_unknown_def intro!: exI [of _ "[(3, VVarint 1)]"])

lemma length_sample_unknown: "length sample_unknown = 2"
  by (simp add: sample_unknown_def tag_def varint.simps)

end
