(* ===== verification/Protocol.thy ===== *)
theory Protocol
  imports Protobuf Wire
begin

text \<open>
  The class \<^verbatim>\<open>proto::Protocol\<close> (\<^verbatim>\<open>common/include/acs/proto/Protocol.hpp\<close>,
  \<^verbatim>\<open>common/src/proto/Protocol.cpp\<close>): a message travels as a frame prefix of fixed size that
  carries the size and the type of the message, followed by the message. The two prefix objects the
  class keeps between calls are part of its state: \<^verbatim>\<open>deserialize\<close> relies on the one that
  \<^verbatim>\<open>getMessageSize\<close> left behind.
\<close>

record Protocol =
  deserFramePrefixCache :: FramePrefix
  serFramePrefixCache :: FramePrefix
  PREFIX_SIZE :: nat

text \<open>\<^verbatim>\<open>_calculatePrefixSize\<close> on the freshly constructed cache; the cache is cleared again.\<close>

definition calculatePrefixSize :: "extlib \<Rightarrow> nat outcome" where
  "calculatePrefixSize L =
     (let c = FramePrefix_default\<lparr>fp_size := 1, fp_type := 1\<rparr>
      in if \<not> pb_IsInitialized L (MFramePrefix c) then AssertFail ''_serFramePrefixCache.IsInitialized()''
         else Ret (pb_ByteSizeLong L (MFramePrefix c)))"

text \<open>The framing type has one value and the constructor ignores it.\<close>

datatype FramingProtocolType = FRAMING_PROTOBUF_SIZE_TYPE

definition Protocol_ctor :: "extlib \<Rightarrow> FramingProtocolType \<Rightarrow> Protocol outcome" where
  "Protocol_ctor L framingType =
     (case calculatePrefixSize L of
        Ret n \<Rightarrow> Ret \<lparr>deserFramePrefixCache = FramePrefix_default,
                      serFramePrefixCache = FramePrefix_default, PREFIX_SIZE = n\<rparr>
      | Throw e \<Rightarrow> Throw e | AssertFail m \<Rightarrow> AssertFail m | Undefined m \<Rightarrow> Undefined m)"

text \<open>
  \<^verbatim>\<open>set_size\<close> takes a \<^verbatim>\<open>uint32\<close>, so the \<^verbatim>\<open>size_t\<close> of \<^verbatim>\<open>ByteSizeLong\<close> is narrowed.
\<close>

definition serialize :: "extlib \<Rightarrow> MessageLite \<Rightarrow> Protocol \<Rightarrow> (Protocol, string) run" where
  "serialize L message P =
     (let c = FramePrefix_default\<lparr>fp_size := of_nat (pb_ByteSizeLong L message),
                                 fp_type := FramePrefix_ECHO\<rparr>;
          P' = P\<lparr>serFramePrefixCache := c\<rparr>
      in case pb_SerializeToString L (MFramePrefix c) of
           None \<Rightarrow> (Throw (RuntimeError ''Failed to serialize frame prefix''), P')
         | Some out \<Rightarrow>
            (case pb_SerializeToString L message of
               None \<Rightarrow> (Throw (RuntimeError ''Failed to serialize chat message''), P')
             | Some body \<Rightarrow>
                (if length (out @ body) = PREFIX_SIZE P' + unat (fp_size (serFramePrefixCache P'))
                 then (Ret (out @ body), P')
                 else (AssertFail ''output.size() == _PREFIX_SIZE + _serFramePrefixCache.size()'', P'))))"

definition deserialize :: "extlib \<Rightarrow> string \<Rightarrow> int \<Rightarrow> Protocol \<Rightarrow> (Protocol, MessageLite) run" where
  "deserialize L data sz P =
     (if fp_type (deserFramePrefixCache P) \<noteq> FramePrefix_ECHO
      then (AssertFail ''_deserFramePrefixCache.type() == proto::FramePrefix::ECHO'', P)
      else (case pb_ChatMessage_ParseFromArray L data sz of
              None \<Rightarrow> (Throw (RuntimeError ''Wrong chat message format. Parse failed''), P)
            | Some m \<Rightarrow> (Ret (MChatMessage m), P)))"

definition getFramePrefixSize :: "Protocol \<Rightarrow> nat" where
  "getFramePrefixSize P = PREFIX_SIZE P"

definition getMessageSize :: "extlib \<Rightarrow> string \<Rightarrow> int \<Rightarrow> Protocol \<Rightarrow> (Protocol, nat) run" where
  "getMessageSize L prefixData sz P =
     (case pb_FramePrefix_ParseFromArray L prefixData sz of
        (ok, c) \<Rightarrow>
          (let P' = P\<lparr>deserFramePrefixCache := c\<rparr>
           in if \<not> ok then (Throw (RuntimeError ''Wrong frame prefix format. Parse failed''), P')
              else (Ret (unat (fp_size c)), P')))"

subsection \<open>The frame of a message\<close>

text \<open>
  The contract between the two ends: the bytes of a frame are the prefix of fixed size and the
  message. \<open>frame\<close> is the value \<^verbatim>\<open>serialize\<close> returns when it returns.
\<close>

definition ECHO_prefix :: "string \<Rightarrow> FramePrefix" where
  "ECHO_prefix body = \<lparr>fp_size = of_nat (length body), fp_type = FramePrefix_ECHO\<rparr>"

definition frame :: "extlib \<Rightarrow> string \<Rightarrow> string" where
  "frame L body = the (pb_SerializeToString L (MFramePrefix (ECHO_prefix body))) @ body"

definition FRAME_PREFIX_SIZE :: nat where
  "FRAME_PREFIX_SIZE = 10"

definition Protocol_inv :: "Protocol \<Rightarrow> bool" where
  "Protocol_inv P \<longleftrightarrow> PREFIX_SIZE P = FRAME_PREFIX_SIZE"

text \<open>
  What the readers and senders rely on: the interface of the framing component. \<open>size_of\<close>
  reads the size of the message from the bytes of a prefix, \<open>enc\<close> makes the frame of a
  message.
\<close>

locale framing =
  fixes prefix_len :: nat
    and size_of :: "string \<Rightarrow> nat option"
    and enc :: "string \<Rightarrow> string"
    and ok :: "string \<Rightarrow> bool"
  assumes prefix_len_pos: "0 < prefix_len"
    and enc_split: "ok body \<Longrightarrow> length (enc body) = prefix_len + length body
        \<and> drop prefix_len (enc body) = body"
    and size_of_enc: "ok body \<Longrightarrow> size_of (take prefix_len (enc body) @ rest) = Some (length body)"
begin

text \<open>Frames can be told apart: the stream of frames determines the messages.\<close>

lemma take_enc: "ok body \<Longrightarrow> enc body = take prefix_len (enc body) @ body"
  using enc_split [of body] append_take_drop_id [of prefix_len "enc body"] by simp

lemma length_take_enc: "ok body \<Longrightarrow> length (take prefix_len (enc body)) = prefix_len"
  using enc_split [of body] by simp

lemma frame_cancel:
  assumes "ok a" and "ok b" and "enc a @ s = enc b @ t"
  shows "a = b \<and> s = t"
proof -
  have pre: "take prefix_len (enc a) = take prefix_len (enc b)"
    using arg_cong [OF assms(3), of "take prefix_len"] enc_split [OF assms(1)] enc_split [OF assms(2)]
    by simp
  then have len: "length a = length b"
    using size_of_enc [OF assms(1), of "[]"] size_of_enc [OF assms(2), of "[]"] by simp
  then have "length (enc a) = length (enc b)" using enc_split assms(1,2) by simp
  with assms(3) have "enc a = enc b" and st: "s = t" by simp_all
  then have "drop prefix_len (enc a) = drop prefix_len (enc b)" by simp
  with st enc_split assms(1,2) show ?thesis by simp
qed

lemma frames_injective:
  "\<forall>a \<in> set as. ok a \<Longrightarrow> \<forall>b \<in> set bs. ok b \<Longrightarrow>
     concat (map enc as) = concat (map enc bs) \<Longrightarrow> as = bs"
proof (induction as arbitrary: bs)
  case Nil
  have "enc b \<noteq> []" if "ok b" for b using enc_split [OF that] prefix_len_pos by auto
  with Nil show ?case by (cases bs) auto
next
  case (Cons a as)
  have "enc a \<noteq> []" using enc_split [of a] prefix_len_pos Cons.prems(1) by auto
  with Cons.prems(3) obtain b bs' where bs: "bs = b # bs'" by (cases bs) auto
  with Cons.prems frame_cancel [of a b "concat (map enc as)" "concat (map enc bs')"]
  have "a = b" and "concat (map enc as) = concat (map enc bs')" by auto
  with Cons.IH [of bs'] Cons.prems bs show ?case by auto
qed

end

subsection \<open>Lemmas\<close>

text \<open>A body that can be framed: not empty, and below the 2 GiB limit of the library.\<close>

definition framable :: "string \<Rightarrow> bool" where
  "framable body \<longleftrightarrow> 0 < length body \<and> length body < 2 ^ 31"

definition prefix_size_of :: "extlib \<Rightarrow> string \<Rightarrow> nat option" where
  "prefix_size_of L s =
     (case pb_FramePrefix_ParseFromArray L s (int FRAME_PREFIX_SIZE) of
        (ok, c) \<Rightarrow> if ok then Some (unat (fp_size c)) else None)"

context protobuf
begin

lemma fp_size_ECHO_prefix:
  "framable body \<Longrightarrow> unat (fp_size (ECHO_prefix body)) = length body"
  by (simp add: ECHO_prefix_def framable_def)

lemma fp_size_ECHO_prefix_nonzero: "framable body \<Longrightarrow> fp_size (ECHO_prefix body) \<noteq> 0"
  using fp_size_ECHO_prefix [of body] by (auto simp: framable_def)

lemma ECHO_prefix_bytes:
  assumes "framable body"
  obtains pre where "pb_SerializeToString L (MFramePrefix (ECHO_prefix body)) = Some pre"
    and "length pre = FRAME_PREFIX_SIZE" and "frame L body = pre @ body"
proof -
  from prefix_serialize [of "ECHO_prefix body"] obtain pre
    where pre: "pb_SerializeToString L (MFramePrefix (ECHO_prefix body)) = Some pre"
      and len: "length pre = (if fp_size (ECHO_prefix body) = 0 then 0 else 5)
        + (if fp_type (ECHO_prefix body) = 0 then 0 else 5)" by blast
  have "length pre = FRAME_PREFIX_SIZE"
    using len fp_size_ECHO_prefix_nonzero [OF assms] by (simp add: ECHO_prefix_def FRAME_PREFIX_SIZE_def)
  with pre show thesis by (intro that [of pre]) (simp_all add: frame_def)
qed

lemma frame_parse:
  assumes "framable body"
  shows "pb_FramePrefix_ParseFromArray L (take FRAME_PREFIX_SIZE (frame L body) @ rest)
      (int FRAME_PREFIX_SIZE) = (True, ECHO_prefix body)"
proof -
  from ECHO_prefix_bytes [OF assms] obtain pre
    where "pb_SerializeToString L (MFramePrefix (ECHO_prefix body)) = Some pre"
      and "length pre = FRAME_PREFIX_SIZE" and "frame L body = pre @ body" .
  with prefix_parse [of "ECHO_prefix body" pre rest] show ?thesis by simp
qed

lemma framing_frame: "framing FRAME_PREFIX_SIZE (prefix_size_of L) (frame L) framable"
proof unfold_locales
  show "0 < FRAME_PREFIX_SIZE" by (simp add: FRAME_PREFIX_SIZE_def)
next
  fix body
  assume b: "framable body"
  from ECHO_prefix_bytes [OF b] show "length (frame L body) = FRAME_PREFIX_SIZE + length body
      \<and> drop FRAME_PREFIX_SIZE (frame L body) = body" by force
  fix rest
  show "prefix_size_of L (take FRAME_PREFIX_SIZE (frame L body) @ rest) = Some (length body)"
    by (simp add: prefix_size_of_def frame_parse [OF b] fp_size_ECHO_prefix [OF b])
qed

lemma Protocol_ctor_eq:
  "Protocol_ctor L FRAMING_PROTOBUF_SIZE_TYPE = Ret \<lparr>deserFramePrefixCache = FramePrefix_default,
     serFramePrefixCache = FramePrefix_default, PREFIX_SIZE = FRAME_PREFIX_SIZE\<rparr>"
  by (simp add: Protocol_ctor_def calculatePrefixSize_def prefix_initialized prefix_size
      FramePrefix_default_def FRAME_PREFIX_SIZE_def)

lemma serialize_eq:
  assumes "Protocol_inv P" and "pb_SerializeToString L m = Some body" and "framable body"
  shows "serialize L m P = (Ret (frame L body), P\<lparr>serFramePrefixCache := ECHO_prefix body\<rparr>)"
proof -
  from ECHO_prefix_bytes [OF assms(3)] obtain pre
    where pre: "pb_SerializeToString L (MFramePrefix (ECHO_prefix body)) = Some pre"
      and len: "length pre = FRAME_PREFIX_SIZE" and fr: "frame L body = pre @ body" .
  have c: "FramePrefix_default\<lparr>fp_size := of_nat (pb_ByteSizeLong L m), fp_type := FramePrefix_ECHO\<rparr>
      = ECHO_prefix body"
    by (simp add: FramePrefix_default_def ECHO_prefix_def byte_size [OF assms(2)])
  show ?thesis unfolding serialize_def Let_def c
    using assms pre len fr fp_size_ECHO_prefix [OF assms(3)] by (simp add: Protocol_inv_def)
qed

text \<open>What \<^verbatim>\<open>serialize\<close> returns, when it returns, is a frame.\<close>

lemma serialize_RetD:
  assumes "Protocol_inv P" and "fst (serialize L m P) = Ret w"
  shows "\<exists>body. pb_SerializeToString L m = Some body \<and> framable body \<and> w = frame L body"
proof -
  let ?c = "FramePrefix_default\<lparr>fp_size := of_nat (pb_ByteSizeLong L m), fp_type := FramePrefix_ECHO\<rparr>"
  from assms(2) obtain out body where s: "pb_SerializeToString L (MFramePrefix ?c) = Some out"
    "pb_SerializeToString L m = Some body" "length (out @ body) = PREFIX_SIZE P + unat (fp_size ?c)" "w = out @ body"
    by (auto simp: serialize_def Let_def split: option.splits if_splits)
  have n: "pb_ByteSizeLong L m = length body" "length body < 2 ^ 31"
    using byte_size [OF s(2)] serialize_limit [OF s(2)] by simp_all
  have "length out = (if fp_size ?c = 0 then 0 else 5) + 5"
    using byte_size [OF s(1)] by (simp add: prefix_size FramePrefix_default_def)
  then have "0 < length body"
    using s(3) n assms(1) by (cases body) (auto simp: Protocol_inv_def FRAME_PREFIX_SIZE_def FramePrefix_default_def)
  moreover have "?c = ECHO_prefix body" by (simp add: n ECHO_prefix_def FramePrefix_default_def)
  ultimately show ?thesis using s n by (simp add: framable_def frame_def)
qed

lemma serialize_chat_returns:
  assumes "Protocol_inv P" and "length (cm_text m) + length (cm_unknown m) + 23 < 2 ^ 31" and "cm_type m \<noteq> 0"
  shows "\<exists>w. fst (serialize L (MChatMessage m) P) = Ret w"
proof (rule chat_serialize [OF assms(2)])
  fix body
  assume b: "pb_SerializeToString L (MChatMessage m) = Some body" "length body = pb_ByteSizeLong L (MChatMessage m)"
    "length body \<le> length (cm_text m) + length (cm_unknown m) + 23"
  then have "framable body" using chat_size_pos [OF assms(3)] assms(2) by (simp add: framable_def)
  from serialize_eq [OF assms(1) b(1) this] show ?thesis by simp
qed

lemma getMessageSize_frame:
  assumes "framable body"
  shows "getMessageSize L (take FRAME_PREFIX_SIZE (frame L body) @ rest) (int FRAME_PREFIX_SIZE) P =
    (Ret (length body), P\<lparr>deserFramePrefixCache := ECHO_prefix body\<rparr>)"
  by (simp add: getMessageSize_def frame_parse [OF assms] fp_size_ECHO_prefix [OF assms])

lemma deserialize_body:
  assumes "fp_type (deserFramePrefixCache P) = FramePrefix_ECHO"
    and "pb_SerializeToString L (MChatMessage m) = Some body" and "utf8 (cm_text m)" and "unknown_ok L (cm_unknown m)"
  shows "deserialize L body (int (length body)) P = (Ret (MChatMessage m), P)"
  using assms chat_parse [OF assms(2-4), of "[]"] by (simp add: deserialize_def)

lemma serialize_chat_cases:
  assumes "Protocol_inv P" and "cm_type m \<noteq> 0"
  obtains (ok) body where "serialize L (MChatMessage m) P =
      (Ret (frame L body), P\<lparr>serFramePrefixCache := ECHO_prefix body\<rparr>)"
      "pb_SerializeToString L (MChatMessage m) = Some body"
  | (fail) P' where "serialize L (MChatMessage m) P =
      (Throw (RuntimeError ''Failed to serialize chat message''), P')"
      "PREFIX_SIZE P' = PREFIX_SIZE P" "pb_SerializeToString L (MChatMessage m) = None"
proof (cases "pb_SerializeToString L (MChatMessage m)")
  case None
  let ?p = "FramePrefix_default\<lparr>fp_size := of_nat (pb_ByteSizeLong L (MChatMessage m)), fp_type := FramePrefix_ECHO\<rparr>"
  obtain pre where "pb_SerializeToString L (MFramePrefix ?p) = Some pre"
    using prefix_serialize by metis
  with None have "serialize L (MChatMessage m) P =
      (Throw (RuntimeError ''Failed to serialize chat message''), P\<lparr>serFramePrefixCache := ?p\<rparr>)"
    by (simp add: serialize_def)
  then show thesis by (rule fail) (simp_all add: None)
next
  case (Some body)
  have "framable body"
    using serialize_limit [OF Some] byte_size [OF Some] chat_size_pos [OF assms(2)] by (simp add: framable_def)
  with serialize_eq [OF assms(1) Some] Some show thesis by (intro ok)
qed

end

lemma deserialize_cases:
  obtains (assert) "deserialize L data n P =
      (AssertFail ''_deserFramePrefixCache.type() == proto::FramePrefix::ECHO'', P)"
  | (parse) "deserialize L data n P =
      (Throw (RuntimeError ''Wrong chat message format. Parse failed''), P)"
  | (message) m where "deserialize L data n P = (Ret (MChatMessage m), P)"
      "fp_type (deserFramePrefixCache P) = FramePrefix_ECHO"
      "pb_ChatMessage_ParseFromArray L data n = Some m"
  by (cases "fp_type (deserFramePrefixCache P) = FramePrefix_ECHO";
      cases "pb_ChatMessage_ParseFromArray L data n"; simp add: deserialize_def)

lemma PREFIX_SIZE_unchanged:
  "snd (serialize L m P) = P' \<Longrightarrow> PREFIX_SIZE P' = PREFIX_SIZE P"
  "snd (getMessageSize L d n P) = P' \<Longrightarrow> PREFIX_SIZE P' = PREFIX_SIZE P"
  "snd (deserialize L d n P) = P' \<Longrightarrow> PREFIX_SIZE P' = PREFIX_SIZE P"
  by (auto simp: serialize_def getMessageSize_def deserialize_def Let_def split: option.splits prod.splits)

lemma ECHO_prefix_type [simp]: "fp_type (ECHO_prefix body) = FramePrefix_ECHO"
  by (simp add: ECHO_prefix_def)

interpretation wire_framing: framing FRAME_PREFIX_SIZE "prefix_size_of wire_lib" "frame wire_lib" framable
  by (rule wire.framing_frame)

subsection \<open>Properties\<close>

abbreviation (input) wire_protocol :: Protocol where
  "wire_protocol \<equiv> \<lparr>deserFramePrefixCache = FramePrefix_default,
     serFramePrefixCache = FramePrefix_default, PREFIX_SIZE = FRAME_PREFIX_SIZE\<rparr>"

text \<open>
  C14. What \<^verbatim>\<open>serialize\<close> makes of a chat message, the other end takes apart again: the first
  \<^verbatim>\<open>getFramePrefixSize()\<close> bytes give \<^verbatim>\<open>getMessageSize\<close> exactly the number of bytes that follow,
  and after that call \<^verbatim>\<open>deserialize\<close> of the rest returns the message, for every message with a
  set type, valid UTF-8 text and a size below the 2 GiB limit of the library; unknown fields that an
  earlier parse has kept are carried along.
\<close>

theorem serialize_roundtrip:
  assumes "protobuf L utf8" and "Protocol_ctor L FRAMING_PROTOBUF_SIZE_TYPE = Ret P"
    and "cm_type m \<noteq> 0" and "utf8 (cm_text m)" and "length (cm_text m) + length (cm_unknown m) + 23 < 2 ^ 31"
    and "unknown_ok L (cm_unknown m)"
  shows "\<exists>w P1 P2. serialize L (MChatMessage m) P = (Ret w, P1) \<and>
    getMessageSize L (take (getFramePrefixSize P) w) (int (getFramePrefixSize P)) P1 =
      (Ret (length w - getFramePrefixSize P), P2) \<and>
    deserialize L (drop (getFramePrefixSize P) w) (int (length w - getFramePrefixSize P)) P2 =
      (Ret (MChatMessage m), P2)"
proof (rule protobuf.chat_serialize [OF assms(1,5)])
  fix body
  assume ser: "pb_SerializeToString L (MChatMessage m) = Some body"
    and len: "length body = pb_ByteSizeLong L (MChatMessage m)" "length body \<le> length (cm_text m) + length (cm_unknown m) + 23"
  have P: "getFramePrefixSize P = FRAME_PREFIX_SIZE" "Protocol_inv P"
    using assms(2) protobuf.Protocol_ctor_eq [OF assms(1)] by (auto simp: getFramePrefixSize_def Protocol_inv_def)
  have fr: "framable body"
    using len protobuf.chat_size_pos [OF assms(1,3)] assms(5) by (simp add: framable_def)
  note split = framing.enc_split [OF protobuf.framing_frame [OF assms(1)] fr]
  let ?P1 = "P\<lparr>serFramePrefixCache := ECHO_prefix body\<rparr>"
  let ?P2 = "?P1\<lparr>deserFramePrefixCache := ECHO_prefix body\<rparr>"
  have "serialize L (MChatMessage m) P = (Ret (frame L body), ?P1)"
    by (rule protobuf.serialize_eq [OF assms(1) P(2) ser fr])
  moreover have "getMessageSize L (take FRAME_PREFIX_SIZE (frame L body)) (int FRAME_PREFIX_SIZE) ?P1 =
      (Ret (length body), ?P2)"
    using protobuf.getMessageSize_frame [OF assms(1) fr, of "[]" ?P1] by simp
  moreover have "deserialize L body (int (length body)) ?P2 = (Ret (MChatMessage m), ?P2)"
    by (rule protobuf.deserialize_body [OF assms(1) _ ser assms(4,6)]) simp
  ultimately show ?thesis using split P(1) by auto
qed

theorem serialize_roundtrip_witness:
  "\<exists>w P1 P2. serialize wire_lib (MChatMessage \<lparr>cm_id = 7, cm_text = ''hi'', cm_type = 4, cm_unknown = sample_unknown\<rparr>) wire_protocol = (Ret w, P1) \<and>
    getMessageSize wire_lib (take (getFramePrefixSize wire_protocol) w) (int (getFramePrefixSize wire_protocol)) P1 =
      (Ret (length w - getFramePrefixSize wire_protocol), P2) \<and>
    deserialize wire_lib (drop (getFramePrefixSize wire_protocol) w)
      (int (length w - getFramePrefixSize wire_protocol)) P2 =
      (Ret (MChatMessage \<lparr>cm_id = 7, cm_text = ''hi'', cm_type = 4, cm_unknown = sample_unknown\<rparr>), P2)"
  by (rule serialize_roundtrip [OF wire.protobuf_axioms wire.Protocol_ctor_eq])
    (simp_all add: Let_def sample_unknown_ok length_sample_unknown)

text \<open>
  C24. A stream of frames is read in one way only: if the bytes that \<^verbatim>\<open>serialize\<close> returned for two
  sequences of chat messages are the same when written one after the other, the sequences are the same.
  The texts are valid UTF-8, and unknown fields, if a message has any, were kept by an earlier parse.
\<close>

theorem frame_stream_unambiguous:
  assumes "protobuf L utf8" and "Protocol_ctor L FRAMING_PROTOBUF_SIZE_TYPE = Ret P"
    and "list_all2 (\<lambda>m w. fst (serialize L (MChatMessage m) P) = Ret w) ms ws"
    and "list_all2 (\<lambda>m w. fst (serialize L (MChatMessage m) P) = Ret w) ns vs"
    and "\<forall>m \<in> set (ms @ ns). utf8 (cm_text m) \<and> unknown_ok L (cm_unknown m)" and "concat ws = concat vs"
  shows "ms = ns"
proof -
  let ?body = "\<lambda>m. the (pb_SerializeToString L (MChatMessage m))"
  have inv: "Protocol_inv P"
    using assms(2) protobuf.Protocol_ctor_eq [OF assms(1)] by (auto simp: Protocol_inv_def)
  have bodies: "xs = map (frame L) (map ?body ks) \<and> (\<forall>b \<in> set (map ?body ks). framable b) \<and>
      (\<forall>m \<in> set ks. pb_SerializeToString L (MChatMessage m) = Some (?body m))"
    if "list_all2 (\<lambda>m w. fst (serialize L (MChatMessage m) P) = Ret w) ks xs" for ks xs
    using that by (induction rule: list_all2_induct)
      (auto dest!: protobuf.serialize_RetD [OF assms(1) inv])
  have "map ?body ms = map ?body ns"
    using framing.frames_injective [OF protobuf.framing_frame [OF assms(1)], of "map ?body ms" "map ?body ns"]
      bodies [OF assms(3)] bodies [OF assms(4)] assms(6) by simp
  moreover have "inj_on ?body (set ms \<union> set ns)"
  proof (rule inj_onI)
    have parse: "pb_ChatMessage_ParseFromArray L (?body x @ []) (int (length (?body x))) = Some x"
      if "x \<in> set ms \<union> set ns" for x
    proof (rule protobuf.chat_parse [OF assms(1)])
      show "pb_SerializeToString L (MChatMessage x) = Some (?body x)"
        using bodies [OF assms(3)] bodies [OF assms(4)] that by blast
      show "utf8 (cm_text x)" "unknown_ok L (cm_unknown x)" using assms(5) that by auto
    qed
    fix x y
    assume "x \<in> set ms \<union> set ns" "y \<in> set ms \<union> set ns" "?body x = ?body y"
    then show "x = y" using parse [of x] parse [of y] by (metis option.inject)
  qed
  ultimately show ?thesis by (simp add: inj_on_map_eq_map)
qed

theorem frame_stream_unambiguous_witness:
  "\<exists>w1 w2 v. fst (serialize wire_lib (MChatMessage \<lparr>cm_id = 1, cm_text = ''a'', cm_type = 4, cm_unknown = []\<rparr>) wire_protocol) = Ret w1 \<and>
     fst (serialize wire_lib (MChatMessage \<lparr>cm_id = 2, cm_text = ''b'', cm_type = 4, cm_unknown = []\<rparr>) wire_protocol) = Ret w2 \<and>
     fst (serialize wire_lib (MChatMessage \<lparr>cm_id = 1, cm_text = ''ab'', cm_type = 4, cm_unknown = []\<rparr>) wire_protocol) = Ret v \<and>
     w1 @ w2 \<noteq> v"
proof -
  let ?a = "\<lparr>cm_id = 1, cm_text = ''a'', cm_type = 4, cm_unknown = []\<rparr> :: ChatMessage"
  let ?b = "\<lparr>cm_id = 2, cm_text = ''b'', cm_type = 4, cm_unknown = []\<rparr> :: ChatMessage"
  let ?c = "\<lparr>cm_id = 1, cm_text = ''ab'', cm_type = 4, cm_unknown = []\<rparr> :: ChatMessage"
  have inv: "Protocol_inv wire_protocol" by (simp add: Protocol_inv_def)
  have ser: "\<exists>w. fst (serialize wire_lib (MChatMessage m) wire_protocol) = Ret w"
    if "length (cm_text m) + length (cm_unknown m) + 23 < 2 ^ 31" "cm_type m \<noteq> 0" for m
    using wire.serialize_chat_returns [OF inv that] by simp
  obtain w1 w2 v where w: "fst (serialize wire_lib (MChatMessage ?a) wire_protocol) = Ret w1"
    "fst (serialize wire_lib (MChatMessage ?b) wire_protocol) = Ret w2"
    "fst (serialize wire_lib (MChatMessage ?c) wire_protocol) = Ret v" using ser [of ?a] ser [of ?b] ser [of ?c] by auto
  have "w1 @ w2 \<noteq> v"
  proof
    assume "w1 @ w2 = v"
    then have "[?a, ?b] = [?c]"
      using w by (intro frame_stream_unambiguous [OF wire.protobuf_axioms wire.Protocol_ctor_eq, of _ "[w1, w2]" _ "[v]"])
        (auto intro!: wire.utf8_ascii)
    then show False by simp
  qed
  with w show ?thesis by blast
qed

text \<open>
  C37. \<^verbatim>\<open>serialize\<close> cannot send a message whose encoding is empty: proto3 leaves out the size
  field of the prefix when it is 0, so the prefix is five bytes short and the assertion on the size
  of the output fails.
\<close>

theorem serialize_empty_message_aborts:
  assumes "protobuf L utf8" and "Protocol_ctor L FRAMING_PROTOBUF_SIZE_TYPE = Ret P"
  shows "fst (serialize L (MChatMessage ChatMessage_default) P) =
    AssertFail ''output.size() == _PREFIX_SIZE + _serFramePrefixCache.size()''"
proof -
  let ?m = "MChatMessage ChatMessage_default"
  let ?p = "FramePrefix_default\<lparr>fp_size := 0, fp_type := FramePrefix_ECHO\<rparr>"
  have sz: "pb_ByteSizeLong L ?m = 0" using protobuf.chat_size_default [OF assms(1)] by simp
  then obtain body where body: "pb_SerializeToString L ?m = Some body"
    using protobuf.serialize_total [OF assms(1), of ?m] by auto
  have b: "body = []" using protobuf.byte_size [OF assms(1) body] sz by simp
  obtain pre where pre: "pb_SerializeToString L (MFramePrefix ?p) = Some pre" "length pre = 5"
    using protobuf.prefix_serialize [OF assms(1), of ?p] by auto
  have "PREFIX_SIZE P = 10"
    using assms(2) protobuf.Protocol_ctor_eq [OF assms(1)] by (auto simp: FRAME_PREFIX_SIZE_def)
  then show ?thesis using pre body b sz by (simp add: serialize_def FramePrefix_default_def)
qed

theorem serialize_empty_message_aborts_witness:
  "fst (serialize wire_lib (MChatMessage ChatMessage_default) wire_protocol) =
    AssertFail ''output.size() == _PREFIX_SIZE + _serFramePrefixCache.size()''"
  by (rule serialize_empty_message_aborts [OF wire.protobuf_axioms wire.Protocol_ctor_eq])

end
