(* ===== verification/Try_Lock.thy ===== *)
theory Try_Lock
  imports Prelude
begin

text \<open>
  The flag protocol that \<^verbatim>\<open>AsyncReader\<close>, \<^verbatim>\<open>AsyncWriter\<close> and \<^verbatim>\<open>TcpConnection\<close> share:
  an operation starts only if it can set the in-progress flag, and the completion handler clears
  it. The locale states the laws of the three members, its lemmas what they give a client.
\<close>

locale try_lock =
  fixes held :: "'s \<Rightarrow> bool"
    and tryLock :: "'s \<Rightarrow> bool \<times> 's"
    and unlock :: "'s \<Rightarrow> 's"
  assumes tryLock_free: "\<not> held s \<Longrightarrow> fst (tryLock s) \<and> held (snd (tryLock s))"
    and tryLock_held: "held s \<Longrightarrow> \<not> fst (tryLock s) \<and> held (snd (tryLock s))"
    and unlock_free: "\<not> held (unlock s)"
begin

text \<open>The results of \<open>n\<close> attempts in a row.\<close>

fun attempts :: "nat \<Rightarrow> 's \<Rightarrow> bool list" where
  "attempts 0 s = []"
| "attempts (Suc n) s = fst (tryLock s) # attempts n (snd (tryLock s))"

lemma held_after: "held (snd (tryLock s))"
  by (cases "held s") (simp_all add: tryLock_free tryLock_held)

lemma granted_iff: "fst (tryLock s) \<longleftrightarrow> \<not> held s"
  by (cases "held s") (simp_all add: tryLock_free tryLock_held)

lemma attempts_held: "held s \<Longrightarrow> attempts n s = replicate n False"
  by (induction n arbitrary: s) (simp_all add: tryLock_held)

lemma attempts_free: "\<not> held s \<Longrightarrow> attempts (Suc n) s = True # replicate n False"
  by (simp add: attempts_held held_after granted_iff)

lemma at_most_one: "length (filter id (attempts n s)) \<le> 1"
proof (cases n)
  case (Suc k)
  then show ?thesis by (cases "held s") (simp_all add: attempts_held attempts_free del: attempts.simps)
qed simp

lemma relock: "fst (tryLock (unlock s))"
  by (simp add: granted_iff unlock_free)

end

end
