(* ===== verification/AsyncReader.thy ===== *)
theory AsyncReader
  imports Logger Protocol Try_Lock
begin

text \<open>
  The class template \<^verbatim>\<open>conn::AsyncReader\<close> (\<^verbatim>\<open>common/include/acs/conn/AsyncReader.hpp\<close>).
  Starting an asynchronous operation adds a request, with the completion handler bound to it, to
  the list of operations Asio has outstanding for the stream; Asio's part, appending bytes of the
  stream to the buffer and calling the handler with an error code and a byte count, is the argument
  of \<open>completeRead\<close>. The documented conditions on it are \<open>asio_read_contract\<close>.
  A callback is a value of type \<open>'cb\<close>; a handler that reaches the call returns it to the
  owner of the reader together with the data. The \<^verbatim>\<open>Protocol\<close> object the reader points to
  belongs to the owner and is passed along.
\<close>

subsection \<open>State\<close>

datatype read_handler =
    HandleReadUntilFinished char bool
  | HandleReadUntilInfNoUnlockLoopstep char bool
  | HandleReadProtoFramePrefixFinished bool
  | HandleReadProtoMessageFinished bool

datatype read_request = AsyncReadUntil nat char | AsyncRead nat

record 'cb AsyncReader =
  maxBufferSize :: nat
  callback :: "'cb option"
  protocolSet :: bool
  readBuffer :: string
  readInProgress :: bool
  pendingReads :: "(read_request \<times> read_handler) list"

definition MAX_READ_BUFFER_SIZE_BYTES :: nat where
  "MAX_READ_BUFFER_SIZE_BYTES = 1024"

definition AsyncReader_ctor :: "nat \<Rightarrow> 'cb AsyncReader" where
  "AsyncReader_ctor n = \<lparr>maxBufferSize = n, callback = None, protocolSet = False, readBuffer = [],
     readInProgress = False, pendingReads = []\<rparr>"

text \<open>
  The call of a stored callback: the data, and whether the handler resets \<^verbatim>\<open>_callback\<close> after
  the call has returned.
\<close>

datatype 'cb delivery = NoCall | Call 'cb string bool

type_synonym 'cb reader_state = "'cb AsyncReader \<times> Protocol \<times> logw"

subsection \<open>Locking and errors\<close>

definition tryLockReading :: "'cb AsyncReader \<times> logw \<Rightarrow> bool \<times> 'cb AsyncReader \<times> logw" where
  "tryLockReading = (\<lambda>(rd, lw).
     if readInProgress rd
     then (False, rd, logError_line ''ERR: Read operation initialized when another is in progress'' lw)
     else (True, rd\<lparr>readInProgress := True\<rparr>, lw))"

definition unlockReading :: "'cb AsyncReader \<Rightarrow> 'cb AsyncReader" where
  "unlockReading rd = rd\<lparr>readInProgress := False\<rparr>"

definition checkError :: "extlib \<Rightarrow> error_code \<Rightarrow> 'cb reader_state \<Rightarrow> ('cb reader_state, bool) run" where
  "checkError L error = (\<lambda>(rd, P, lw).
     let lw' = (if error = asio_eof L then log_line ''DBG: EOF encountered'' lw
                else if error = asio_no_buffer_space L
                then logError_line ''ERR: Buffer max size reached when reading'' lw
                else lw)
     in if failed error then (Throw (SystemError error), (unlockReading rd, P, lw'))
        else (Ret False, (rd, P, lw')))"

subsection \<open>Starting operations\<close>

definition start_read :: "read_request \<Rightarrow> read_handler \<Rightarrow> 'cb AsyncReader \<Rightarrow> 'cb AsyncReader" where
  "start_read req h rd = rd\<lparr>pendingReads := pendingReads rd @ [(req, h)]\<rparr>"

definition doReadUntil :: "char \<Rightarrow> bool \<Rightarrow> 'cb AsyncReader \<Rightarrow> 'cb AsyncReader" where
  "doReadUntil delim discardDelim rd =
     start_read (AsyncReadUntil (maxBufferSize rd) delim) (HandleReadUntilFinished delim discardDelim) rd"

definition doReadUntilInfinitelyNoUnlock :: "char \<Rightarrow> bool \<Rightarrow> 'cb AsyncReader \<Rightarrow> 'cb AsyncReader" where
  "doReadUntilInfinitelyNoUnlock delim discardDelim rd =
     start_read (AsyncReadUntil (maxBufferSize rd) delim)
       (HandleReadUntilInfNoUnlockLoopstep delim discardDelim) rd"

text \<open>
  \<^verbatim>\<open>reserve\<close> on the buffer changes its capacity only, which no result depends on.
\<close>

definition doReadProtoFramePrefix :: "bool \<Rightarrow> 'cb reader_state \<Rightarrow> ('cb reader_state, unit) run" where
  "doReadProtoFramePrefix repeatReadProtoInf = (\<lambda>(rd, P, lw).
     if \<not> protocolSet rd then (AssertFail ''_protocol != nullptr'', (rd, P, lw))
     else if getFramePrefixSize P > maxBufferSize rd
     then (Throw (LengthError ''Frame prefix size exceeds max read buffer size''), (rd, P, lw))
     else (Ret (), (start_read (AsyncRead (getFramePrefixSize P))
                      (HandleReadProtoFramePrefixFinished repeatReadProtoInf) rd, P, lw)))"

definition doReadProtoMessage :: "nat \<Rightarrow> bool \<Rightarrow> 'cb reader_state \<Rightarrow> ('cb reader_state, unit) run" where
  "doReadProtoMessage messageSize repeatReadProto = (\<lambda>(rd, P, lw).
     if \<not> protocolSet rd then (AssertFail ''_protocol != nullptr'', (rd, P, lw))
     else if messageSize > maxBufferSize rd
     then (Throw (LengthError ''Message size exceeds max read buffer size''), (rd, P, lw))
     else (Ret (), (start_read (AsyncRead messageSize)
                      (HandleReadProtoMessageFinished repeatReadProto) rd, P, lw)))"

subsection \<open>The public interface\<close>

definition readAsyncUntilDelim ::
    "'cb \<Rightarrow> char \<Rightarrow> bool \<Rightarrow> 'cb AsyncReader \<times> logw \<Rightarrow> 'cb AsyncReader \<times> logw" where
  "readAsyncUntilDelim cb delim discardDelim st =
     (case tryLockReading st of
        (locked, rd, lw) \<Rightarrow>
          if locked then (doReadUntil delim discardDelim (rd\<lparr>callback := Some cb\<rparr>), lw) else (rd, lw))"

definition readAsyncUntilDelimInf ::
    "'cb \<Rightarrow> char \<Rightarrow> bool \<Rightarrow> 'cb AsyncReader \<Rightarrow> ('cb AsyncReader, unit) run" where
  "readAsyncUntilDelimInf cb delim discardDelim rd =
     (Throw (LogicError ''Function not yet implemented''), rd)"

definition readAsyncUntilDelimInfOccupy ::
    "'cb \<Rightarrow> char \<Rightarrow> bool \<Rightarrow> 'cb AsyncReader \<times> logw \<Rightarrow> 'cb AsyncReader \<times> logw" where
  "readAsyncUntilDelimInfOccupy cb delim discardDelim st =
     (case tryLockReading st of
        (locked, rd, lw) \<Rightarrow>
          if locked then (doReadUntilInfinitelyNoUnlock delim discardDelim (rd\<lparr>callback := Some cb\<rparr>), lw)
          else (rd, lw))"

definition readAsyncProtoInfOccupy :: "'cb \<Rightarrow> 'cb reader_state \<Rightarrow> ('cb reader_state, unit) run" where
  "readAsyncProtoInfOccupy cb = (\<lambda>(rd, P, lw).
     (case tryLockReading (rd, lw) of
        (locked, rd', lw') \<Rightarrow>
          if locked then doReadProtoFramePrefix True (rd'\<lparr>callback := Some cb, protocolSet := True\<rparr>, P, lw')
          else (Ret (), (rd', P, lw'))))"

subsection \<open>Completion handlers\<close>

definition call_callback :: "string \<Rightarrow> bool \<Rightarrow> 'cb reader_state \<Rightarrow> ('cb reader_state, 'cb delivery) run" where
  "call_callback requestedData reset = (\<lambda>(rd, P, lw).
     case callback rd of
       None \<Rightarrow> (Throw BadFunctionCall, (rd, P, lw))
     | Some cb \<Rightarrow> (Ret (Call cb requestedData reset), (rd, P, lw)))"

definition handleReadUntilFinished ::
    "extlib \<Rightarrow> char \<Rightarrow> bool \<Rightarrow> error_code \<Rightarrow> nat \<Rightarrow> 'cb reader_state \<Rightarrow> ('cb reader_state, 'cb delivery) run" where
  "handleReadUntilFinished L delim discardDelim error bytesTransferred st =
     andThen (checkError L error st) (\<lambda>err (rd, P, lw).
       if err then (Ret NoCall, (rd, P, lw))
       else
         (let delimPos = find_char (readBuffer rd) delim
          in if of_nat bytesTransferred \<noteq> delimPos + 1
             then (AssertFail ''bytesTransferred == delimPos+1'', (rd, P, lw))
             else
               (let requestedData = substr0 (readBuffer rd) (if discardDelim then delimPos else delimPos + 1);
                    rd1 = rd\<lparr>readBuffer := erase0 (readBuffer rd) (delimPos + 1)\<rparr>
                in call_callback requestedData False (unlockReading rd1, P, lw))))"

definition handleReadUntilInfNoUnlockLoopstep ::
    "extlib \<Rightarrow> char \<Rightarrow> bool \<Rightarrow> error_code \<Rightarrow> nat \<Rightarrow> 'cb reader_state \<Rightarrow> ('cb reader_state, 'cb delivery) run" where
  "handleReadUntilInfNoUnlockLoopstep L delim discardDelim error bytesTransferred st =
     andThen (checkError L error st) (\<lambda>err (rd, P, lw).
       if err then (Ret NoCall, (rd, P, lw))
       else
         (let delimPos = find_char (readBuffer rd) delim
          in if of_nat bytesTransferred \<noteq> delimPos + 1
             then (AssertFail ''bytesTransferred == delimPos+1'', (rd, P, lw))
             else
               (let requestedData = substr0 (readBuffer rd) (if discardDelim then delimPos else delimPos + 1);
                    rd1 = rd\<lparr>readBuffer := erase0 (readBuffer rd) (delimPos + 1)\<rparr>
                in call_callback requestedData False
                     (doReadUntilInfinitelyNoUnlock delim discardDelim rd1, P, lw))))"

definition handleReadProtoFramePrefixFinished ::
    "extlib \<Rightarrow> bool \<Rightarrow> error_code \<Rightarrow> nat \<Rightarrow> 'cb reader_state \<Rightarrow> ('cb reader_state, 'cb delivery) run" where
  "handleReadProtoFramePrefixFinished L repeatReadProto error bytesTransferred st =
     andThen (checkError L error st) (\<lambda>err (rd, P, lw).
       if err then (Ret NoCall, (rd, P, lw))
       else if \<not> protocolSet rd then (Undefined ''_protocol is null'', (rd, P, lw))
       else if bytesTransferred \<noteq> getFramePrefixSize P
       then (AssertFail ''bytesTransferred == _protocol->getFramePrefixSize()'', (rd, P, lw))
       else
         (case getMessageSize L (readBuffer rd) (int bytesTransferred) P of
            (res, P') \<Rightarrow>
              andThen (res, (rd, P', lw)) (\<lambda>messageSize (rd, P, lw).
                andThen (doReadProtoMessage messageSize repeatReadProto
                          (rd\<lparr>readBuffer := erase0 (readBuffer rd) (of_nat bytesTransferred)\<rparr>, P, lw))
                  (\<lambda>_ st'. (Ret NoCall, st')))))"

definition handleReadProtoMessageFinished ::
    "extlib \<Rightarrow> bool \<Rightarrow> error_code \<Rightarrow> nat \<Rightarrow> 'cb reader_state \<Rightarrow> ('cb reader_state, 'cb delivery) run" where
  "handleReadProtoMessageFinished L repeatReadProto error bytesTransferred st =
     andThen (checkError L error st) (\<lambda>err (rd, P, lw).
       if err then (Ret NoCall, (rd, P, lw))
       else
         (let requestedData = substr0 (readBuffer rd) (of_nat bytesTransferred);
              rd1 = rd\<lparr>readBuffer := erase0 (readBuffer rd) (of_nat bytesTransferred)\<rparr>
          in if repeatReadProto
             then andThen (doReadProtoFramePrefix True (rd1, P, lw)) (\<lambda>_. call_callback requestedData False)
             else call_callback requestedData True ((unlockReading rd1)\<lparr>protocolSet := False\<rparr>, P, lw)))"

fun run_read_handler ::
    "extlib \<Rightarrow> read_handler \<Rightarrow> error_code \<Rightarrow> nat \<Rightarrow> 'cb reader_state \<Rightarrow> ('cb reader_state, 'cb delivery) run" where
  "run_read_handler L (HandleReadUntilFinished d b) ec n st = handleReadUntilFinished L d b ec n st"
| "run_read_handler L (HandleReadUntilInfNoUnlockLoopstep d b) ec n st =
     handleReadUntilInfNoUnlockLoopstep L d b ec n st"
| "run_read_handler L (HandleReadProtoFramePrefixFinished r) ec n st =
     handleReadProtoFramePrefixFinished L r ec n st"
| "run_read_handler L (HandleReadProtoMessageFinished r) ec n st =
     handleReadProtoMessageFinished L r ec n st"

subsection \<open>Asio's side of an operation\<close>

text \<open>
  The documented conditions on a completed operation that found \<open>buf\<close> in the buffer and
  appended \<open>data\<close>: the buffer stays within the given limit; \<^verbatim>\<open>async_read\<close> reports the bytes
  it appended and succeeds when the buffer is full; \<^verbatim>\<open>async_read_until\<close> succeeds when the
  buffer has the delimiter and reports the position after its first occurrence.
\<close>

fun asio_read_contract :: "read_request \<Rightarrow> string \<Rightarrow> string \<Rightarrow> error_code \<Rightarrow> nat \<Rightarrow> bool" where
  "asio_read_contract (AsyncRead mx) buf data ec n =
     (length buf + length data \<le> mx \<and> n = length data \<and>
      (failed ec \<or> length buf + length data = mx))"
| "asio_read_contract (AsyncReadUntil mx d) buf data ec n =
     (length buf + length data \<le> mx \<and>
      (failed ec \<or> d \<in> set (buf @ data) \<and> n = Suc (length (takeWhile (\<lambda>x. x \<noteq> d) (buf @ data)))))"

text \<open>A completion: error code, byte count, and the bytes appended to the buffer.\<close>

type_synonym read_event = "error_code \<times> nat \<times> string"

definition completeRead :: "extlib \<Rightarrow> read_event \<Rightarrow> 'cb reader_state \<Rightarrow> ('cb reader_state, 'cb delivery) run" where
  "completeRead L = (\<lambda>(ec, n, data) (rd, P, lw).
     case pendingReads rd of
       [] \<Rightarrow> (Ret NoCall, (rd, P, lw))
     | (req, h) # rest \<Rightarrow>
         run_read_handler L h ec n (rd\<lparr>pendingReads := rest, readBuffer := readBuffer rd @ data\<rparr>, P, lw))"

definition completion_ok :: "read_event \<Rightarrow> 'cb AsyncReader \<Rightarrow> bool" where
  "completion_ok = (\<lambda>(ec, n, data) rd.
     case pendingReads rd of
       [] \<Rightarrow> False
     | (req, h) # rest \<Rightarrow> asio_read_contract req (readBuffer rd) data ec n)"

fun delivered :: "'cb delivery \<Rightarrow> ('cb \<times> string) list" where
  "delivered NoCall = []"
| "delivered (Call cb s reset) = [(cb, s)]"

text \<open>A sequence of completions: the callback calls it makes, up to the first exception.\<close>

fun reader_run :: "extlib \<Rightarrow> read_event list \<Rightarrow> 'cb reader_state
    \<Rightarrow> ('cb \<times> string) list \<times> ('cb reader_state, unit) run" where
  "reader_run L [] st = ([], (Ret (), st))"
| "reader_run L (e # es) st =
     (case completeRead L e st of
        (Ret d, st') \<Rightarrow> (case reader_run L es st' of (ds, r) \<Rightarrow> (delivered d @ ds, r))
      | (Throw x, st') \<Rightarrow> ([], (Throw x, st'))
      | (AssertFail m, st') \<Rightarrow> ([], (AssertFail m, st'))
      | (Undefined m, st') \<Rightarrow> ([], (Undefined m, st')))"

text \<open>The completions obey Asio's documentation in the states they arrive in.\<close>

fun run_ok :: "extlib \<Rightarrow> read_event list \<Rightarrow> 'cb reader_state \<Rightarrow> bool" where
  "run_ok L [] st = True"
| "run_ok L (e # es) st =
     (completion_ok e (fst st) \<and>
      (case completeRead L e st of
         (Ret d, st') \<Rightarrow> run_ok L es st'
       | (_, st') \<Rightarrow> es = []))"

definition received :: "read_event list \<Rightarrow> string" where
  "received es = concat (map (\<lambda>(ec, n, data). data) es)"

subsection \<open>Lemmas: errors and the lock\<close>

lemma checkError_failed:
  "failed ec \<Longrightarrow> \<exists>lw'. checkError L ec (rd, P, lw) = (Throw (SystemError ec), (unlockReading rd, P, lw'))"
  by (simp add: checkError_def Let_def)

lemma checkError_cases:
  obtains (error) lw' where "failed ec" "checkError L ec (rd, P, lw) = (Throw (SystemError ec), (unlockReading rd, P, lw'))"
  | (ok) lw' where "\<not> failed ec" "checkError L ec (rd, P, lw) = (Ret False, (rd, P, lw'))"
  by (cases "failed ec") (simp_all add: checkError_def Let_def)

lemma run_read_handler_failed:
  assumes "failed ec"
  shows "\<exists>lw'. run_read_handler L h ec n (rd, P, lw) = (Throw (SystemError ec), (unlockReading rd, P, lw'))"
  using checkError_failed [OF assms, of L rd P lw]
  by (cases h) (auto simp: handleReadUntilFinished_def handleReadUntilInfNoUnlockLoopstep_def
      handleReadProtoFramePrefixFinished_def handleReadProtoMessageFinished_def)

lemma completeRead_failed:
  assumes "failed ec" and "pendingReads rd = [q]"
  shows "\<exists>lw'. completeRead L (ec, n, data) (rd, P, lw) =
    (Throw (SystemError ec),
     (rd\<lparr>readBuffer := readBuffer rd @ data, readInProgress := False, pendingReads := []\<rparr>, P, lw'))"
  using run_read_handler_failed [OF assms(1), of L "snd q" n
      "rd\<lparr>pendingReads := [], readBuffer := readBuffer rd @ data\<rparr>" P lw] assms(2)
  by (auto simp: completeRead_def unlockReading_def split: prod.splits)

interpretation reader_lock: try_lock
  "\<lambda>(rd :: 'cb AsyncReader, lw :: logw). readInProgress rd" tryLockReading
  "\<lambda>(rd :: 'cb AsyncReader, lw :: logw). (unlockReading rd, lw)"
  by unfold_locales (auto simp: tryLockReading_def unlockReading_def)

context protobuf
begin

lemma checkError_ok: "\<not> failed ec \<Longrightarrow> checkError L ec st = (Ret False, st)"
  using eof_failed no_buffer_space_failed by (auto simp: checkError_def Let_def split: prod.splits)

end

subsection \<open>Lemmas: reading lines\<close>

definition waiting_until :: "'cb \<Rightarrow> char \<Rightarrow> bool \<Rightarrow> 'cb AsyncReader \<Rightarrow> bool" where
  "waiting_until cb d discard rd \<longleftrightarrow>
     callback rd = Some cb \<and> readInProgress rd \<and> maxBufferSize rd < 2 ^ 64 \<and>
     pendingReads rd = [(AsyncReadUntil (maxBufferSize rd) d, HandleReadUntilInfNoUnlockLoopstep d discard)]"

lemma waiting_until_buffer [simp]:
  "waiting_until cb d discard (rd\<lparr>readBuffer := b\<rparr>) = waiting_until cb d discard rd"
  by (simp add: waiting_until_def)

lemma split_at_delim:
  assumes "d \<in> set buf" and "length buf < 2 ^ 64"
  obtains l r where "buf = l @ d # r" and "d \<notin> set l" and "length (takeWhile (\<lambda>x. x \<noteq> d) buf) = length l"
    and "substr0 buf (find_char buf d) = l" and "substr0 buf (find_char buf d + 1) = l @ [d]"
    and "erase0 buf (find_char buf d + 1) = r" and "find_char buf d + 1 = of_nat (Suc (length l))"
proof -
  let ?l = "takeWhile (\<lambda>x. x \<noteq> d) buf"
  let ?r = "drop (Suc (length ?l)) buf"
  have eq: "buf = ?l @ d # ?r" using takeWhile_split [OF assms(1)] by simp
  have "d \<notin> set ?l" by (auto dest: set_takeWhileD)
  moreover have "take (length ?l) buf = ?l" by (simp add: takeWhile_eq_take [symmetric])
  moreover have "take (Suc (length ?l)) buf = ?l @ [d]"
    by (subst eq) simp
  moreover have "find_char buf d + 1 = of_nat (Suc (length ?l))"
    using assms(1) by (simp add: find_char_def)
  ultimately show thesis
    using eq unat_find_char [OF assms] by (intro that [of ?l ?r]) (simp_all add: substr0_def erase0_def)
qed

context protobuf
begin

text \<open>One line: the handler delivers it, keeps the rest of the buffer and reads on.\<close>

lemma until_step:
  assumes w: "waiting_until cb d discard rd" and ok: "completion_ok (ec, n, data) rd" and e: "\<not> failed ec"
  shows "\<exists>l r. readBuffer rd @ data = l @ d # r \<and> d \<notin> set l \<and>
    completeRead L (ec, n, data) (rd, P, lw) =
      (Ret (Call cb (if discard then l else l @ [d]) False), (rd\<lparr>readBuffer := r\<rparr>, P, lw))"
proof -
  let ?buf = "readBuffer rd @ data"
  from w ok e have d: "d \<in> set ?buf" and n: "n = Suc (length (takeWhile (\<lambda>x. x \<noteq> d) ?buf))"
    and len: "length ?buf < 2 ^ 64"
    by (auto simp: waiting_until_def completion_ok_def)
  from split_at_delim [OF d len] obtain l r where "?buf = l @ d # r" "d \<notin> set l"
    "length (takeWhile (\<lambda>x. x \<noteq> d) ?buf) = length l"
    "substr0 ?buf (find_char ?buf d) = l" "substr0 ?buf (find_char ?buf d + 1) = l @ [d]"
    "erase0 ?buf (find_char ?buf d + 1) = r" "find_char ?buf d + 1 = of_nat (Suc (length l))" .
  note s = this
  have "completeRead L (ec, n, data) (rd, P, lw) =
      (Ret (Call cb (if discard then l else l @ [d]) False), (rd\<lparr>readBuffer := r\<rparr>, P, lw))"
    using w n s(3-7) by (cases rd) (simp add: completeRead_def waiting_until_def
        handleReadUntilInfNoUnlockLoopstep_def checkError_ok [OF e] Let_def call_callback_def
        doReadUntilInfinitelyNoUnlock_def start_read_def)
  with s(1,2) show ?thesis by blast
qed

lemma until_run:
  assumes "waiting_until cb d discard rd" and "run_ok L es (rd, P, lw)"
    and "\<forall>e \<in> set es. \<not> failed (fst e)"
  shows "\<exists>ls r. readBuffer rd @ received es = concat (map (\<lambda>l. l @ [d]) ls) @ r \<and>
    length ls = length es \<and> (\<forall>l \<in> set ls. d \<notin> set l) \<and>
    reader_run L es (rd, P, lw) =
      (map (\<lambda>l. (cb, if discard then l else l @ [d])) ls, (Ret (), (rd\<lparr>readBuffer := r\<rparr>, P, lw)))"
  using assms
proof (induction es arbitrary: rd)
  case Nil
  then show ?case by (auto simp: received_def intro: exI [of _ "[]"])
next
  case (Cons e es)
  obtain ec n data where e: "e = (ec, n, data)" by (cases e)
  from Cons.prems e have "completion_ok (ec, n, data) rd" "\<not> failed ec" by auto
  from until_step [OF Cons.prems(1) this, of P lw] obtain l r
    where lr: "readBuffer rd @ data = l @ d # r" "d \<notin> set l"
      and step: "completeRead L (ec, n, data) (rd, P, lw) =
        (Ret (Call cb (if discard then l else l @ [d]) False), (rd\<lparr>readBuffer := r\<rparr>, P, lw))" by blast
  from Cons.prems e step Cons.IH [of "rd\<lparr>readBuffer := r\<rparr>"] obtain ls r'
    where IH: "r @ received es = concat (map (\<lambda>l. l @ [d]) ls) @ r'" "length ls = length es"
      "\<forall>l \<in> set ls. d \<notin> set l"
      "reader_run L es (rd\<lparr>readBuffer := r\<rparr>, P, lw) =
        (map (\<lambda>l. (cb, if discard then l else l @ [d])) ls, (Ret (), (rd\<lparr>readBuffer := r'\<rparr>, P, lw)))"
    by auto
  have "readBuffer rd @ received (e # es) = concat (map (\<lambda>l. l @ [d]) (l # ls)) @ r'"
  proof -
    have "readBuffer rd @ received (e # es) = (readBuffer rd @ data) @ received es"
      by (simp add: received_def e)
    then show ?thesis using lr(1) IH(1) by simp
  qed
  moreover have "reader_run L (e # es) (rd, P, lw) =
      (map (\<lambda>l. (cb, if discard then l else l @ [d])) (l # ls), (Ret (), (rd\<lparr>readBuffer := r'\<rparr>, P, lw)))"
    using step IH(4) by (simp add: e)
  ultimately show ?case using lr(2) IH(2,3) by (intro exI [of _ "l # ls"] exI [of _ r']) auto
qed

end

subsection \<open>Lemmas: reading frames\<close>

text \<open>
  The states of the reader between two completions of the frame loop: the buffer is empty, and
  either a prefix or a message that fits the buffer is awaited.
\<close>

definition proto_mode :: "'cb \<Rightarrow> 'cb AsyncReader \<Rightarrow> Protocol \<Rightarrow> bool" where
  "proto_mode cb rd P \<longleftrightarrow>
     callback rd = Some cb \<and> protocolSet rd \<and> readInProgress rd \<and> readBuffer rd = [] \<and>
     PREFIX_SIZE P \<le> maxBufferSize rd \<and> maxBufferSize rd < 2 ^ 64"

definition await_prefix :: "Protocol \<Rightarrow> 'cb AsyncReader \<Rightarrow> bool" where
  "await_prefix P rd \<longleftrightarrow>
     pendingReads rd = [(AsyncRead (PREFIX_SIZE P), HandleReadProtoFramePrefixFinished True)]"

definition await_message :: "nat \<Rightarrow> 'cb AsyncReader \<Rightarrow> bool" where
  "await_message n rd \<longleftrightarrow>
     pendingReads rd = [(AsyncRead n, HandleReadProtoMessageFinished True)] \<and> n \<le> maxBufferSize rd"

definition proto_inv :: "'cb \<Rightarrow> 'cb AsyncReader \<Rightarrow> Protocol \<Rightarrow> bool" where
  "proto_inv cb rd P \<longleftrightarrow> proto_mode cb rd P \<and> (await_prefix P rd \<or> (\<exists>n. await_message n rd))"

text \<open>What a completion may do to a reader in the frame loop.\<close>

fun frame_loop_exn :: "exn \<Rightarrow> bool" where
  "frame_loop_exn (SystemError ec) = failed ec"
| "frame_loop_exn (RuntimeError m) = (m = ''Wrong frame prefix format. Parse failed'')"
| "frame_loop_exn (LengthError m) = (m = ''Message size exceeds max read buffer size'')"
| "frame_loop_exn _ = False"

fun proto_step_ok :: "'cb \<Rightarrow> nat \<Rightarrow> nat \<Rightarrow> ('cb reader_state, 'cb delivery) run \<Rightarrow> bool" where
  "proto_step_ok cb mx ps (Ret d, (rd, P, lw)) =
     (proto_inv cb rd P \<and> maxBufferSize rd = mx \<and> PREFIX_SIZE P = ps \<and>
      (d = NoCall \<or> (\<exists>s. d = Call cb s False)))"
| "proto_step_ok cb mx ps (Throw x, (rd, P, lw)) = (frame_loop_exn x \<and> pendingReads rd = [])"
| "proto_step_ok cb mx ps (AssertFail m, st) = False"
| "proto_step_ok cb mx ps (Undefined m, st) = False"

lemma proto_failed_step:
  assumes "failed ec" and "pendingReads rd = [q]"
  shows "proto_step_ok cb (maxBufferSize rd) (PREFIX_SIZE P) (completeRead L (ec, n, data) (rd, P, lw))"
  using completeRead_failed [OF assms, of L n data P lw] assms(1) by auto

lemma proto_prefix_step:
  assumes m: "proto_mode cb rd P" and a: "await_prefix P rd" and ok: "completion_ok (ec, n, data) rd"
  shows "proto_step_ok cb (maxBufferSize rd) (PREFIX_SIZE P) (completeRead L (ec, n, data) (rd, P, lw))"
proof (cases "failed ec")
  case True
  from a obtain q where "pendingReads rd = [q]" by (simp add: await_prefix_def)
  with True show ?thesis by (rule proto_failed_step)
next
  case False
  from m a ok False have n: "n = length data" "length data = PREFIX_SIZE P"
    by (auto simp: proto_mode_def await_prefix_def completion_ok_def)
  obtain lw' where ce: "checkError L ec (rd\<lparr>pendingReads := [], readBuffer := data\<rparr>, P, lw) =
      (Ret False, (rd\<lparr>pendingReads := [], readBuffer := data\<rparr>, P, lw'))"
    using False by (rule_tac ec = ec in checkError_cases) auto
  show ?thesis
  proof (cases "getMessageSize L data (int n) P")
    case (Pair res P')
    have ps: "PREFIX_SIZE P' = PREFIX_SIZE P" using PREFIX_SIZE_unchanged(2) [of L data "int n" P P'] Pair by simp
    have res: "res = Throw (RuntimeError ''Wrong frame prefix format. Parse failed'') \<or> (\<exists>k. res = Ret k)"
      using Pair by (auto simp: getMessageSize_def Let_def split: prod.splits if_splits)
    show ?thesis using m a n ce Pair res ps
      by (auto simp: completeRead_def proto_mode_def await_prefix_def await_message_def proto_inv_def
          handleReadProtoFramePrefixFinished_def getFramePrefixSize_def doReadProtoMessage_def
          start_read_def erase0_def)
  qed
qed

lemma proto_message_step:
  assumes m: "proto_mode cb rd P" and a: "await_message k rd" and ok: "completion_ok (ec, n, data) rd"
  shows "proto_step_ok cb (maxBufferSize rd) (PREFIX_SIZE P) (completeRead L (ec, n, data) (rd, P, lw))"
proof (cases "failed ec")
  case True
  from a obtain q where "pendingReads rd = [q]" by (simp add: await_message_def)
  with True show ?thesis by (rule proto_failed_step)
next
  case False
  from m a ok False have n: "n = length data" "length data = k" "k < 2 ^ 64"
    by (auto simp: proto_mode_def await_message_def completion_ok_def)
  obtain lw' where ce: "checkError L ec (rd\<lparr>pendingReads := [], readBuffer := data\<rparr>, P, lw) =
      (Ret False, (rd\<lparr>pendingReads := [], readBuffer := data\<rparr>, P, lw'))"
    using False by (rule_tac ec = ec in checkError_cases) auto
  show ?thesis using m a n ce
    by (simp add: completeRead_def proto_mode_def await_prefix_def await_message_def proto_inv_def
        handleReadProtoMessageFinished_def getFramePrefixSize_def doReadProtoFramePrefix_def
        start_read_def erase0_def Let_def call_callback_def)
qed

lemma proto_step:
  assumes "proto_inv cb rd P" and "completion_ok e rd"
  shows "proto_step_ok cb (maxBufferSize rd) (PREFIX_SIZE P) (completeRead L e (rd, P, lw))"
  using assms proto_prefix_step proto_message_step by (cases e) (auto simp: proto_inv_def)

lemma start_proto:
  assumes "PREFIX_SIZE P \<le> mx" and "mx < 2 ^ 64"
  shows "\<exists>rd. readAsyncProtoInfOccupy cb (AsyncReader_ctor mx, P, lw) = (Ret (), (rd, P, lw)) \<and>
    proto_mode cb rd P \<and> await_prefix P rd \<and> maxBufferSize rd = mx"
  using assms by (simp add: readAsyncProtoInfOccupy_def AsyncReader_ctor_def tryLockReading_def
      doReadProtoFramePrefix_def getFramePrefixSize_def start_read_def proto_mode_def await_prefix_def)

text \<open>The reader and the protocol object between the two completions of a frame.\<close>

definition expecting :: "string \<Rightarrow> 'cb AsyncReader \<Rightarrow> 'cb AsyncReader" where
  "expecting body rd = rd\<lparr>pendingReads := [(AsyncRead (length body), HandleReadProtoMessageFinished True)]\<rparr>"

definition noted :: "string \<Rightarrow> Protocol \<Rightarrow> Protocol" where
  "noted body P = P\<lparr>deserFramePrefixCache := ECHO_prefix body\<rparr>"

text \<open>The two completions that bring the frame of a body.\<close>

definition frame_events :: "extlib \<Rightarrow> string \<Rightarrow> read_event list" where
  "frame_events L body =
     [(no_error, FRAME_PREFIX_SIZE, take FRAME_PREFIX_SIZE (frame L body)), (no_error, length body, body)]"

lemma noted_simps [simp]:
  "PREFIX_SIZE (noted body P) = PREFIX_SIZE P" "Protocol_inv (noted body P) = Protocol_inv P"
  "fp_type (deserFramePrefixCache (noted body P)) = FramePrefix_ECHO"
  "proto_mode cb rd (noted body P) = proto_mode cb rd P" "await_prefix (noted body P) rd = await_prefix P rd"
  by (simp_all add: noted_def Protocol_inv_def proto_mode_def await_prefix_def)

lemma next_event:
  assumes "run_ok L es (rd, P, lw)" and "\<forall>e \<in> set es. \<not> failed (fst e)"
    and "pendingReads rd = [(AsyncRead (length x), h)]" and "readBuffer rd = []"
    and "received es = x @ y" and "x \<noteq> []"
  obtains ec es' where "es = (ec, length x, x) # es'" and "\<not> failed ec" and "received es' = y"
proof -
  from assms(5,6) obtain ec n data es' where es: "es = (ec, n, data) # es'"
    by (cases es) (auto simp: received_def)
  with assms(2) have ec: "\<not> failed ec" by auto
  with assms(1,3,4) es have n: "n = length data" "length data = length x" by (auto simp: completion_ok_def)
  with assms(5) es have "data = x" "received es' = y" by (auto simp: received_def)
  with es ec n show thesis by (intro that) auto
qed

context protobuf
begin

text \<open>The two steps of a frame, and the loop over a stream of frames.\<close>

lemma frame_prefix_step:
  assumes "proto_mode cb rd P" and "await_prefix P rd" and "Protocol_inv P"
    and "framable body" and "length body \<le> maxBufferSize rd" and "\<not> failed ec"
  shows "completeRead L (ec, FRAME_PREFIX_SIZE, take FRAME_PREFIX_SIZE (frame L body)) (rd, P, lw) =
    (Ret NoCall, (expecting body rd, noted body P, lw))"
proof -
  have "length (take FRAME_PREFIX_SIZE (frame L body)) = FRAME_PREFIX_SIZE"
    using framing.length_take_enc [OF framing_frame assms(4)] .
  moreover have "getMessageSize L (take FRAME_PREFIX_SIZE (frame L body)) (int FRAME_PREFIX_SIZE) P =
      (Ret (length body), noted body P)"
    using getMessageSize_frame [OF assms(4), of "[]" P] by (simp add: noted_def)
  ultimately show ?thesis using assms
    by (cases rd) (simp add: completeRead_def proto_mode_def await_prefix_def Protocol_inv_def
        handleReadProtoFramePrefixFinished_def checkError_ok getFramePrefixSize_def expecting_def
        doReadProtoMessage_def start_read_def erase0_def FRAME_PREFIX_SIZE_def)
qed

lemma frame_message_step:
  assumes "proto_mode cb rd P" and "await_prefix P rd" and "length body \<le> maxBufferSize rd" and "\<not> failed ec"
  shows "completeRead L (ec, length body, body) (expecting body rd, P, lw) =
    (Ret (Call cb body False), (rd, P, lw))"
  using assms
  by (cases rd) (simp add: completeRead_def proto_mode_def await_prefix_def expecting_def
      handleReadProtoMessageFinished_def checkError_ok getFramePrefixSize_def call_callback_def
      doReadProtoFramePrefix_def start_read_def erase0_def substr0_def Let_def)

text \<open>A message that is announced larger than the buffer.\<close>

lemma oversized_prefix:
  assumes "proto_mode cb rd P" and "await_prefix P rd" and "Protocol_inv P"
    and "framable body" and "maxBufferSize rd < length body"
  shows "\<exists>rd' P'. completeRead L (no_error, FRAME_PREFIX_SIZE, take FRAME_PREFIX_SIZE (frame L body)) (rd, P, lw) =
      (Throw (LengthError ''Message size exceeds max read buffer size''), (rd', P', lw)) \<and>
    pendingReads rd' = [] \<and> \<not> fst (tryLockReading (rd', lw))"
proof -
  have "length (take FRAME_PREFIX_SIZE (frame L body)) = FRAME_PREFIX_SIZE"
    by (rule framing.length_take_enc [OF framing_frame assms(4)])
  moreover have "getMessageSize L (take FRAME_PREFIX_SIZE (frame L body)) (int FRAME_PREFIX_SIZE) P =
      (Ret (length body), noted body P)"
    using getMessageSize_frame [OF assms(4), of "[]" P] by (simp add: noted_def)
  ultimately show ?thesis using assms(1-3,5)
    by (cases rd) (simp add: completeRead_def proto_mode_def await_prefix_def Protocol_inv_def
        handleReadProtoFramePrefixFinished_def checkError_ok getFramePrefixSize_def
        doReadProtoMessage_def tryLockReading_def)
qed

text \<open>The same two steps for any bytes: a prefix delivers nothing, a message is delivered as it came.\<close>

lemma await_prefix_NoCall:
  assumes "await_prefix P rd" and "\<not> failed ec" and "completeRead L (ec, n, data) (rd, P, lw) = (Ret d, st)"
  shows "d = NoCall"
  using assms(1,3)
  by (auto simp: completeRead_def await_prefix_def handleReadProtoFramePrefixFinished_def
      checkError_ok [OF assms(2)] andThen_eq_Ret split: if_splits prod.splits)

lemma await_message_Call:
  assumes "proto_mode cb rd P" and "await_message k rd" and "completion_ok (ec, n, data) rd" and "\<not> failed ec"
  shows "\<exists>rd'. completeRead L (ec, n, data) (rd, P, lw) = (Ret (Call cb data False), (rd', P, lw))"
proof -
  have "n = length data" "length data < 2 ^ 64"
    using assms by (auto simp: completion_ok_def await_message_def proto_mode_def)
  then show ?thesis using assms(1,2)
    by (simp add: completeRead_def await_message_def proto_mode_def substr0_def handleReadProtoMessageFinished_def
        checkError_ok [OF assms(4)] Let_def doReadProtoFramePrefix_def getFramePrefixSize_def call_callback_def
        start_read_def)
qed

lemma frames_run:
  assumes "proto_mode cb rd P" and "await_prefix P rd" and "Protocol_inv P"
    and "\<forall>b \<in> set bodies. framable b \<and> length b \<le> maxBufferSize rd"
    and "run_ok L es (rd, P, lw)" and "\<forall>e \<in> set es. \<not> failed (fst e)"
    and "received es = concat (map (frame L) bodies)"
  shows "\<exists>P'. reader_run L es (rd, P, lw) = (map (Pair cb) bodies, (Ret (), (rd, P', lw)))"
  using assms(1-3,4-)
proof (induction bodies arbitrary: es P)
  case Nil
  show ?case
  proof (cases es)
    case (Cons e es')
    obtain ec n data where e: "e = (ec, n, data)" by (cases e)
    with Nil.prems Cons have "length data = FRAME_PREFIX_SIZE" and "data = []"
      by (auto simp: completion_ok_def proto_mode_def await_prefix_def Protocol_inv_def received_def)
    then show ?thesis by (simp add: FRAME_PREFIX_SIZE_def)
  qed (use Nil.prems in auto)
next
  case (Cons b bodies)
  let ?pre = "take FRAME_PREFIX_SIZE (frame L b)" and ?rest = "concat (map (frame L) bodies)"
  have b: "framable b" "length b \<le> maxBufferSize rd" using Cons.prems(4) by auto
  have "frame L b = ?pre @ b" by (rule framing.take_enc [OF framing_frame b(1)])
  then have all: "received es = ?pre @ b @ ?rest" using Cons.prems(7) by (metis append.assoc concat.simps(2) list.simps(9))
  have len: "length ?pre = FRAME_PREFIX_SIZE" by (rule framing.length_take_enc [OF framing_frame b(1)])
  then have "?pre \<noteq> []" by (auto simp: FRAME_PREFIX_SIZE_def)
  moreover have "pendingReads rd = [(AsyncRead (length ?pre), HandleReadProtoFramePrefixFinished True)]" "readBuffer rd = []"
    using Cons.prems(1-3) len by (simp_all add: await_prefix_def Protocol_inv_def proto_mode_def)
  ultimately obtain ec es1 where es: "es = (ec, FRAME_PREFIX_SIZE, ?pre) # es1" "\<not> failed ec" "received es1 = b @ ?rest"
    using next_event [OF Cons.prems(5,6) _ _ all] len by metis
  note step1 = frame_prefix_step [OF Cons.prems(1-3) b es(2), of lw]
  have ok1: "run_ok L es1 (expecting b rd, noted b P, lw)" "\<forall>e \<in> set es1. \<not> failed (fst e)"
    using Cons.prems(5,6) step1 by (simp_all add: es(1))
  have "b \<noteq> []" "pendingReads (expecting b rd) = [(AsyncRead (length b), HandleReadProtoMessageFinished True)]"
    "readBuffer (expecting b rd) = []"
    using b(1) Cons.prems(1) by (auto simp: framable_def expecting_def proto_mode_def)
  then obtain ec' es2 where es1: "es1 = (ec', length b, b) # es2" "\<not> failed ec'" "received es2 = ?rest"
    using next_event [OF ok1 _ _ es(3)] by metis
  have step2: "completeRead L (ec', length b, b) (expecting b rd, noted b P, lw) =
      (Ret (Call cb b False), (rd, noted b P, lw))"
    using Cons.prems(1,2) b(2) es1(2) by (intro frame_message_step) simp_all
  have "\<exists>P'. reader_run L es2 (rd, noted b P, lw) = (map (Pair cb) bodies, (Ret (), (rd, P', lw)))"
    using Cons.prems ok1 step2 es1 by (intro Cons.IH) auto
  then show ?case using step1 step2 by (auto simp: es(1) es1(1))
qed

text \<open>The frame events obey Asio's contract: such a run exists for every sequence of bodies.\<close>

lemma frame_events_ok:
  assumes "proto_mode cb rd P" and "await_prefix P rd" and "Protocol_inv P"
    and "\<forall>b \<in> set bodies. framable b \<and> length b \<le> maxBufferSize rd"
  shows "run_ok L (concat (map (frame_events L) bodies)) (rd, P, lw)"
  using assms
proof (induction bodies arbitrary: P)
  case (Cons b bodies)
  then have b: "framable b" "length b \<le> maxBufferSize rd" by auto
  have len: "length (take FRAME_PREFIX_SIZE (frame L b)) = FRAME_PREFIX_SIZE"
    by (rule framing.length_take_enc [OF framing_frame b(1)])
  have step2: "completeRead L (no_error, length b, b) (expecting b rd, noted b P, lw) =
      (Ret (Call cb b False), (rd, noted b P, lw))"
    using Cons.prems b(2) by (intro frame_message_step) simp_all
  have "run_ok L (concat (map (frame_events L) bodies)) (rd, noted b P, lw)"
    using Cons.prems by (intro Cons.IH) auto
  then show ?case
    using frame_prefix_step [OF Cons.prems(1-3) b, of no_error lw] step2 len Cons.prems(1-3)
    by (simp add: frame_events_def [of L b] completion_ok_def expecting_def proto_mode_def await_prefix_def Protocol_inv_def)
qed simp

lemma received_frame_events:
  "\<forall>b \<in> set bodies. framable b \<Longrightarrow>
     received (concat (map (frame_events L) bodies)) = concat (map (frame L) bodies)"
  by (induction bodies)
    (auto simp: received_def frame_events_def framing.take_enc [OF framing_frame, symmetric])

end

subsection \<open>Lemmas: whole runs of the frame loop\<close>

lemma proto_run:
  assumes "proto_inv cb rd P" and "run_ok L es (rd, P, lw)"
  shows "\<exists>ds out rd' P' lw'. reader_run L es (rd, P, lw) = (ds, (out, (rd', P', lw'))) \<and>
    (\<forall>d \<in> set ds. fst d = cb) \<and>
    (out = Ret () \<and> proto_inv cb rd' P' \<or> (\<exists>x. out = Throw x \<and> frame_loop_exn x \<and> pendingReads rd' = []))"
  using assms
proof (induction es arbitrary: rd P lw)
  case (Cons e es)
  obtain res rd1 P1 lw1 where r: "completeRead L e (rd, P, lw) = (res, (rd1, P1, lw1))"
    by (cases "completeRead L e (rd, P, lw)") auto
  have "completion_ok e rd" using Cons.prems(2) by simp
  from proto_step [OF Cons.prems(1) this, of L lw] r
  have ok: "proto_step_ok cb (maxBufferSize rd) (PREFIX_SIZE P) (res, (rd1, P1, lw1))" by simp
  show ?case
  proof (cases res)
    case (Ret d)
    with ok have "proto_inv cb rd1 P1" and d: "d = NoCall \<or> (\<exists>s. d = Call cb s False)" by auto
    moreover have "run_ok L es (rd1, P1, lw1)" using Cons.prems(2) r Ret by simp
    ultimately obtain ds out rd' P' lw' where "reader_run L es (rd1, P1, lw1) = (ds, (out, (rd', P', lw')))"
      "\<forall>d \<in> set ds. fst d = cb"
      "out = Ret () \<and> proto_inv cb rd' P' \<or> (\<exists>x. out = Throw x \<and> frame_loop_exn x \<and> pendingReads rd' = [])"
      using Cons.IH by blast
    with r Ret d show ?thesis by auto
  qed (use ok r in auto)
qed auto

subsection \<open>Properties\<close>

text \<open>
  C15. The frame loop delivers every message of the stream, whole, once and in order: whatever
  bytes Asio's completions bring, if together they are the frames of some messages that fit the
  buffer, then the callback is called exactly with these messages, nothing is thrown, and the
  reader is back where it started, waiting for the next prefix.
\<close>

theorem frames_delivered_in_order:
  assumes "protobuf L utf8" and "Protocol_inv P" and "FRAME_PREFIX_SIZE \<le> mx" and "mx < 2 ^ 64"
    and "readAsyncProtoInfOccupy cb (AsyncReader_ctor mx, P, lw) = (Ret (), st)"
    and "\<forall>b \<in> set bodies. framable b \<and> length b \<le> mx"
    and "run_ok L es st" and "\<forall>e \<in> set es. \<not> failed (fst e)"
    and "received es = concat (map (frame L) bodies)"
  shows "\<exists>P'. reader_run L es st = (map (Pair cb) bodies, (Ret (), (fst st, P', lw)))"
proof -
  have "PREFIX_SIZE P \<le> mx" using assms(2,3) by (simp add: Protocol_inv_def)
  from start_proto [OF this assms(4), of cb lw] assms(5)
  obtain rd where "st = (rd, P, lw)" "proto_mode cb rd P" "await_prefix P rd" "maxBufferSize rd = mx" by auto
  with protobuf.frames_run [OF assms(1), of cb rd P bodies es lw] assms(2,6-9) show ?thesis by auto
qed

theorem frames_delivered_in_order_witness:
  "\<exists>P'. reader_run wire_lib (concat (map (frame_events wire_lib) [''ab'', ''c'']))
       (snd (readAsyncProtoInfOccupy () (AsyncReader_ctor 1024, wire_protocol, initial_logw))) =
     (map (Pair ()) [''ab'', ''c''],
       (Ret (), (fst (snd (readAsyncProtoInfOccupy () (AsyncReader_ctor 1024, wire_protocol, initial_logw))), P', initial_logw)))"
proof -
  have P: "Protocol_inv wire_protocol" "FRAME_PREFIX_SIZE \<le> 1024" "(1024 :: nat) < 2 ^ 64"
    by (simp_all add: Protocol_inv_def FRAME_PREFIX_SIZE_def)
  from start_proto [of wire_protocol 1024 "()" initial_logw] P(2) obtain rd
    where st: "readAsyncProtoInfOccupy () (AsyncReader_ctor 1024, wire_protocol, initial_logw) =
        (Ret (), (rd, wire_protocol, initial_logw))"
      "proto_mode () rd wire_protocol" "await_prefix wire_protocol rd" "maxBufferSize rd = 1024" by auto
  have b: "\<forall>b \<in> set [''ab'', ''c'']. framable b \<and> length b \<le> 1024" by (simp add: framable_def)
  have ok: "run_ok wire_lib (concat (map (frame_events wire_lib) [''ab'', ''c''])) (rd, wire_protocol, initial_logw)"
    using st b by (intro wire.frame_events_ok [OF st(2,3) P(1)]) simp
  have e: "\<forall>e \<in> set (concat (map (frame_events wire_lib) [''ab'', ''c''])). \<not> failed (fst e)"
    by (simp add: frame_events_def)
  have rec: "received (concat (map (frame_events wire_lib) [''ab'', ''c''])) = concat (map (frame wire_lib) [''ab'', ''c''])"
    using b by (intro wire.received_frame_events) auto
  from frames_delivered_in_order [OF wire.protobuf_axioms P st(1) b ok e rec] st(1) show ?thesis by simp
qed

text \<open>
  C17. Whatever the peer sends and whenever Asio reports errors, the frame loop stays defined: no
  assertion of the reader fails, no null pointer or empty callback is used, and the only ways out
  are the I/O error itself, a prefix that does not parse, and a message larger than the buffer.
  Until then the reader keeps its invariant: one outstanding read, an empty buffer between reads.
\<close>

theorem frame_loop_safe:
  assumes "PREFIX_SIZE P \<le> mx" and "mx < 2 ^ 64"
    and "readAsyncProtoInfOccupy cb (AsyncReader_ctor mx, P, lw) = (Ret (), st)" and "run_ok L es st"
  shows "\<exists>ds out rd' P' lw'. reader_run L es st = (ds, (out, (rd', P', lw'))) \<and>
    (\<forall>d \<in> set ds. fst d = cb) \<and>
    (out = Ret () \<and> proto_inv cb rd' P' \<or> (\<exists>x. out = Throw x \<and> frame_loop_exn x \<and> pendingReads rd' = []))"
proof -
  from start_proto [OF assms(1,2), of cb lw] assms(3)
  obtain rd where st: "st = (rd, P, lw)" and inv: "proto_inv cb rd P" by (auto simp: proto_inv_def)
  from proto_run [OF inv, of L es lw] assms(4) show ?thesis unfolding st .
qed

theorem frame_loop_safe_witness:
  "\<exists>ds out rd' P' lw'. reader_run wire_lib [(asio_eof wire_lib, 0, [])]
      (snd (readAsyncProtoInfOccupy () (AsyncReader_ctor 1024, wire_protocol, initial_logw))) = (ds, (out, (rd', P', lw'))) \<and>
    (\<forall>d \<in> set ds. fst d = ()) \<and>
    (out = Ret () \<and> proto_inv () rd' P' \<or> (\<exists>x. out = Throw x \<and> frame_loop_exn x \<and> pendingReads rd' = []))"
proof -
  have P: "PREFIX_SIZE wire_protocol \<le> 1024" "(1024 :: nat) < 2 ^ 64" by (simp_all add: FRAME_PREFIX_SIZE_def)
  from start_proto [OF P, of "()" initial_logw] obtain rd
    where st: "readAsyncProtoInfOccupy () (AsyncReader_ctor 1024, wire_protocol, initial_logw) =
        (Ret (), (rd, wire_protocol, initial_logw))" "proto_mode () rd wire_protocol" "await_prefix wire_protocol rd"
    by blast
  obtain q where q: "pendingReads rd = [q]" using st(3) by (simp add: await_prefix_def)
  from completeRead_failed [OF wire.eof_failed q, of wire_lib 0 "[]" wire_protocol initial_logw]
  have ok: "run_ok wire_lib [(asio_eof wire_lib, 0, [])] (rd, wire_protocol, initial_logw)"
    using st(2,3) wire.eof_failed by (auto simp: completion_ok_def await_prefix_def proto_mode_def)
  from frame_loop_safe [OF P st(1) ok] st(1) show ?thesis by simp
qed

text \<open>
  C22. The line loop loses and repeats nothing: after any completions without errors, the bytes
  received are the delivered lines, each ended by its delimiter, followed by what is still in the
  buffer; there is one line per completion and no line contains the delimiter.
\<close>

theorem lines_delivered_in_order:
  assumes "protobuf L utf8" and "mx < 2 ^ 64"
    and "readAsyncUntilDelimInfOccupy cb d discard (AsyncReader_ctor mx, lw) = (rd, lw')"
    and "run_ok L es (rd, P, lw')" and "\<forall>e \<in> set es. \<not> failed (fst e)"
  shows "\<exists>ls rest. received es = concat (map (\<lambda>l. l @ [d]) ls) @ rest \<and>
    length ls = length es \<and> (\<forall>l \<in> set ls. d \<notin> set l) \<and>
    reader_run L es (rd, P, lw') =
      (map (\<lambda>l. (cb, if discard then l else l @ [d])) ls, (Ret (), (rd\<lparr>readBuffer := rest\<rparr>, P, lw')))"
proof -
  from assms(2,3) have "waiting_until cb d discard rd" and buf: "readBuffer rd = []"
    by (auto simp: readAsyncUntilDelimInfOccupy_def tryLockReading_def AsyncReader_ctor_def
        doReadUntilInfinitelyNoUnlock_def start_read_def waiting_until_def)
  from protobuf.until_run [OF assms(1) this(1) assms(4,5)] show ?thesis unfolding buf by simp
qed

theorem lines_delivered_in_order_witness:
  "\<exists>ls rest. received [(no_error, 3, ''ab;c''), (no_error, 3, ''d;'')] = concat (map (\<lambda>l. l @ '';'') ls) @ rest \<and>
    length ls = length [(no_error, 3 :: nat, ''ab;c''), (no_error, 3, ''d;'')] \<and> (\<forall>l \<in> set ls. CHR '';'' \<notin> set l) \<and>
    reader_run wire_lib [(no_error, 3, ''ab;c''), (no_error, 3, ''d;'')]
      (fst (readAsyncUntilDelimInfOccupy () (CHR '';'') True (AsyncReader_ctor 1024, initial_logw)), wire_protocol, initial_logw) =
      (map (\<lambda>l. ((), if True then l else l @ '';'')) ls,
       (Ret (), ((fst (readAsyncUntilDelimInfOccupy () (CHR '';'') True (AsyncReader_ctor 1024, initial_logw)))\<lparr>readBuffer := rest\<rparr>,
          wire_protocol, initial_logw)))"
proof -
  let ?es = "[(no_error, 3, ''ab;c''), (no_error, 3, ''d;'')]"
  let ?rd = "\<lparr>maxBufferSize = 1024, callback = Some (), protocolSet = False, readBuffer = [], readInProgress = True,
    pendingReads = [(AsyncReadUntil 1024 (CHR '';''), HandleReadUntilInfNoUnlockLoopstep (CHR '';'') True)]\<rparr>"
  have st: "readAsyncUntilDelimInfOccupy () (CHR '';'') True (AsyncReader_ctor 1024, initial_logw) = (?rd, initial_logw)"
    by (simp add: readAsyncUntilDelimInfOccupy_def tryLockReading_def AsyncReader_ctor_def
        doReadUntilInfinitelyNoUnlock_def start_read_def)
  have s1: "completeRead wire_lib (no_error, 3, ''ab;c'') (?rd, wire_protocol, initial_logw) =
      (Ret (Call () ''ab'' False), (?rd\<lparr>readBuffer := ''c''\<rparr>, wire_protocol, initial_logw))"
    by (simp add: completeRead_def handleReadUntilInfNoUnlockLoopstep_def wire.checkError_ok Let_def find_char_def
        substr0_def erase0_def call_callback_def doReadUntilInfinitelyNoUnlock_def start_read_def)
  have s2: "completeRead wire_lib (no_error, 3, ''d;'') (?rd\<lparr>readBuffer := ''c''\<rparr>, wire_protocol, initial_logw) =
      (Ret (Call () ''cd'' False), (?rd, wire_protocol, initial_logw))"
    by (simp add: completeRead_def handleReadUntilInfNoUnlockLoopstep_def wire.checkError_ok Let_def find_char_def
        substr0_def erase0_def call_callback_def doReadUntilInfinitelyNoUnlock_def start_read_def)
  have ok: "run_ok wire_lib ?es (?rd, wire_protocol, initial_logw)"
    by (simp only: run_ok.simps s1 s2 prod.case outcome.case fst_conv) (simp add: completion_ok_def)
  have e: "\<forall>e \<in> set ?es. \<not> failed (fst e)" by simp
  from lines_delivered_in_order [OF wire.protobuf_axioms _ st ok e] show ?thesis unfolding st by simp
qed

text \<open>
  C23. A single line is read and the reader is free again: \<^verbatim>\<open>readAsyncUntilDelim\<close> on an idle reader
  delivers the first line of the bytes left over from earlier reads and the bytes received, with or
  without its delimiter as asked; afterwards the reader is as it was, unlocked and with no operation
  outstanding, but for the callback and for the buffer, which holds exactly the bytes after the line.
\<close>

theorem single_line_read:
  assumes "protobuf L utf8" and "\<not> readInProgress rd" and "pendingReads rd = []" and "maxBufferSize rd < 2 ^ 64"
    and "readAsyncUntilDelim cb d discard (rd, lw) = (rd1, lw1)"
    and "completion_ok (ec, n, data) rd1" and "\<not> failed ec"
  shows "\<exists>l rest. readBuffer rd @ data = l @ d # rest \<and> d \<notin> set l \<and>
    completeRead L (ec, n, data) (rd1, P, lw1) =
      (Ret (Call cb (if discard then l else l @ [d]) False), (rd\<lparr>callback := Some cb, readBuffer := rest\<rparr>, P, lw))"
proof -
  let ?buf = "readBuffer rd @ data"
  have rd1: "rd1 = rd\<lparr>readInProgress := True, callback := Some cb,
      pendingReads := [(AsyncReadUntil (maxBufferSize rd) d, HandleReadUntilFinished d discard)]\<rparr>" and "lw1 = lw"
    using assms(2,3,5) by (auto simp: readAsyncUntilDelim_def tryLockReading_def doReadUntil_def start_read_def)
  have d: "d \<in> set ?buf" and n: "n = Suc (length (takeWhile (\<lambda>x. x \<noteq> d) ?buf))" and len: "length ?buf < 2 ^ 64"
    using assms(4,6,7) by (auto simp: rd1 completion_ok_def)
  from split_at_delim [OF d len] obtain l r where s: "?buf = l @ d # r" "d \<notin> set l"
    "length (takeWhile (\<lambda>x. x \<noteq> d) ?buf) = length l"
    "substr0 ?buf (find_char ?buf d) = l" "substr0 ?buf (find_char ?buf d + 1) = l @ [d]"
    "erase0 ?buf (find_char ?buf d + 1) = r" "find_char ?buf d + 1 = of_nat (Suc (length l))" .
  have "completeRead L (ec, n, data) (rd1, P, lw1) =
      (Ret (Call cb (if discard then l else l @ [d]) False), (rd\<lparr>callback := Some cb, readBuffer := r\<rparr>, P, lw))"
    using assms(2,3) n s(3-7) \<open>lw1 = lw\<close>
    by (cases rd) (simp add: completeRead_def rd1 handleReadUntilFinished_def protobuf.checkError_ok [OF assms(1,7)] Let_def
        call_callback_def unlockReading_def)
  with s(1,2) show ?thesis by blast
qed

theorem single_line_read_witness:
  "\<exists>l rest. ''ab'' @ ''c;d'' = l @ CHR '';'' # rest \<and> CHR '';'' \<notin> set l \<and>
    completeRead wire_lib (no_error, 4, ''c;d'')
      (fst (readAsyncUntilDelim () CHR '';'' True ((AsyncReader_ctor 16)\<lparr>readBuffer := ''ab''\<rparr>, initial_logw)), wire_protocol, initial_logw) =
    (Ret (Call () l False), ((AsyncReader_ctor 16)\<lparr>callback := Some (), readBuffer := rest\<rparr>, wire_protocol, initial_logw))"
proof -
  let ?rd = "(AsyncReader_ctor 16)\<lparr>readBuffer := ''ab''\<rparr> :: unit AsyncReader"
  let ?rd1 = "?rd\<lparr>readInProgress := True, callback := Some (),
    pendingReads := [(AsyncReadUntil 16 CHR '';'', HandleReadUntilFinished CHR '';'' True)]\<rparr>"
  have st: "readAsyncUntilDelim () CHR '';'' True (?rd, initial_logw) = (?rd1, initial_logw)"
    by (simp add: readAsyncUntilDelim_def tryLockReading_def doReadUntil_def start_read_def AsyncReader_ctor_def)
  have "completion_ok (no_error, 4, ''c;d'') ?rd1" by (simp add: completion_ok_def AsyncReader_ctor_def)
  from single_line_read [OF wire.protobuf_axioms _ _ _ st this failed_no_error] st show ?thesis
    by (simp add: AsyncReader_ctor_def)
qed

text \<open>
  C30. An I/O error ends the outstanding read and releases the reader: the error is thrown, nothing
  is delivered, no read is left outstanding and the next attempt to read is granted.
\<close>

theorem read_error_unlocks:
  assumes "failed ec" and "pendingReads rd = [q]"
  shows "\<exists>rd' lw'. completeRead L (ec, n, data) (rd, P, lw) = (Throw (SystemError ec), (rd', P, lw')) \<and>
    pendingReads rd' = [] \<and> fst (tryLockReading (rd', lw'))"
proof -
  let ?rd = "rd\<lparr>readBuffer := readBuffer rd @ data, readInProgress := False, pendingReads := []\<rparr>"
  have "fst (tryLockReading (?rd, lw'))" for lw' by (simp add: reader_lock.granted_iff)
  then show ?thesis
    using completeRead_failed [OF assms, of L n data P lw] by (intro exI [of _ ?rd]) auto
qed

theorem read_error_unlocks_witness:
  "\<exists>rd' lw'. completeRead wire_lib (asio_eof wire_lib, 0, [])
      ((AsyncReader_ctor 8 :: unit AsyncReader)\<lparr>readInProgress := True,
         pendingReads := [(AsyncRead 5, HandleReadProtoMessageFinished True)]\<rparr>, wire_protocol, initial_logw) =
      (Throw (SystemError (asio_eof wire_lib)), (rd', wire_protocol, lw')) \<and>
    pendingReads rd' = [] \<and> fst (tryLockReading (rd', lw'))"
  by (rule read_error_unlocks [OF wire.eof_failed]) simp

text \<open>
  At most one of any number of attempts to start reading is granted, and a start that is
  refused leaves the reader as it is and reports it on the error log.
\<close>

lemma reads_mutually_exclusive:
  "length (filter id (try_lock.attempts tryLockReading k (rd, lw))) \<le> 1 \<and>
   (readInProgress rd \<longrightarrow>
     readAsyncUntilDelimInfOccupy cb d b (rd, lw) =
       (rd, logError_line ''ERR: Read operation initialized when another is in progress'' lw) \<and>
     readAsyncUntilDelim cb d b (rd, lw) = readAsyncUntilDelimInfOccupy cb d b (rd, lw) \<and>
     readAsyncProtoInfOccupy cb (rd, P, lw) =
       (Ret (), (rd, P, logError_line ''ERR: Read operation initialized when another is in progress'' lw)))"
  using reader_lock.at_most_one [of k "(rd, lw)"]
  by (simp add: readAsyncUntilDelimInfOccupy_def readAsyncUntilDelim_def readAsyncProtoInfOccupy_def tryLockReading_def)

text \<open>
  The frame loop cannot be started behind a line reader: if bytes are left in the buffer when
  it starts, the first successful completion fails the assertion on the byte count, because Asio
  counts only the bytes it appended.
\<close>

lemma leftover_bytes_abort_frame_loop:
  assumes "\<not> readInProgress rd" and "pendingReads rd = []" and "readBuffer rd \<noteq> []"
    and "PREFIX_SIZE P \<le> maxBufferSize rd"
    and "readAsyncProtoInfOccupy cb (rd, P, lw) = (Ret (), (rd', P', lw'))"
    and "completion_ok (ec, n, data) rd'" and "\<not> failed ec"
  shows "fst (completeRead L (ec, n, data) (rd', P', lw')) =
    AssertFail ''bytesTransferred == _protocol->getFramePrefixSize()''"
proof -
  have rd': "rd' = rd\<lparr>readInProgress := True, callback := Some cb, protocolSet := True,
      pendingReads := [(AsyncRead (PREFIX_SIZE P), HandleReadProtoFramePrefixFinished True)]\<rparr>" and P': "P' = P"
    using assms(1,2,4,5)
    by (auto simp: readAsyncProtoInfOccupy_def tryLockReading_def doReadProtoFramePrefix_def
        getFramePrefixSize_def start_read_def)
  have "n = length data" "length (readBuffer rd) + length data = PREFIX_SIZE P"
    using assms(6,7) by (auto simp: rd' completion_ok_def)
  then have "n \<noteq> PREFIX_SIZE P" using assms(3) by auto
  then show ?thesis
    using assms(7) by (auto simp: completeRead_def rd' P' handleReadProtoFramePrefixFinished_def getFramePrefixSize_def
        checkError_def Let_def)
qed

end
