(* ===== verification/AsyncWriter.thy ===== *)
theory AsyncWriter
  imports Logger Wire Try_Lock
begin

text \<open>
  The class template \<^verbatim>\<open>conn::AsyncWriter\<close> (\<^verbatim>\<open>common/include/acs/conn/AsyncWriter.hpp\<close>).
  \<^verbatim>\<open>asio::async_write\<close> works on the memory of \<^verbatim>\<open>_writeBuffer\<close> and asks the caller to keep it
  unchanged until the completion handler runs. An outstanding write records the bytes it was started
  with and whether the buffer has been left alone since; assigning the buffer clears that mark, and
  completing a write whose buffer was changed is undefined.
\<close>

subsection \<open>Outstanding writes\<close>

record write_op =
  wo_data :: string
  wo_intact :: bool

definition clobber :: "write_op list \<Rightarrow> write_op list" where
  "clobber ops = map (\<lambda>op. op\<lparr>wo_intact := False\<rparr>) ops"

subsection \<open>The class\<close>

record AsyncWriter =
  writeBuffer :: string
  writeInProgress :: bool
  pendingWrites :: "write_op list"

definition AsyncWriter_ctor :: AsyncWriter where
  "AsyncWriter_ctor = \<lparr>writeBuffer = [], writeInProgress = False, pendingWrites = []\<rparr>"

definition tryLockWriting :: "AsyncWriter \<times> logw \<Rightarrow> bool \<times> AsyncWriter \<times> logw" where
  "tryLockWriting = (\<lambda>(w, lw).
     if writeInProgress w
     then (False, w, logError_line ''ERR: Write operation initialized when another is in progress'' lw)
     else (True, w\<lparr>writeInProgress := True\<rparr>, lw))"

definition assign_writeBuffer :: "string \<Rightarrow> AsyncWriter \<Rightarrow> AsyncWriter" where
  "assign_writeBuffer data w = w\<lparr>writeBuffer := data, pendingWrites := clobber (pendingWrites w)\<rparr>"

definition doWrite :: "AsyncWriter \<Rightarrow> AsyncWriter" where
  "doWrite w = w\<lparr>pendingWrites := pendingWrites w @ [\<lparr>wo_data = writeBuffer w, wo_intact = True\<rparr>]\<rparr>"

text \<open>Both overloads: the move and the copy leave the same bytes in the buffer.\<close>

definition AsyncWriter_write :: "string \<Rightarrow> AsyncWriter \<times> logw \<Rightarrow> AsyncWriter \<times> logw" where
  "AsyncWriter_write data st =
     (case tryLockWriting st of
        (locked, w, lw) \<Rightarrow> if locked then (doWrite (assign_writeBuffer data w), lw) else (w, lw))"

definition handleWriteFinished ::
    "extlib \<Rightarrow> error_code \<Rightarrow> nat \<Rightarrow> AsyncWriter \<times> logw \<Rightarrow> (AsyncWriter \<times> logw, unit) run" where
  "handleWriteFinished L error bytesTransferred = (\<lambda>(w, lw).
     let w' = w\<lparr>writeInProgress := False\<rparr>
     in if error = asio_eof L
        then (Ret (), (w', log_line ''DBG: Connection closed cleanly by peer during write'' lw))
        else if failed error then (Throw (SystemError error), (w', lw))
        else (Ret (), (w', lw)))"

text \<open>
  The completion of the outstanding write with an error code and the number of bytes written:
  the bytes that reached the stream, and the rest of the run.
\<close>

definition completeWrite ::
    "extlib \<Rightarrow> error_code \<Rightarrow> nat \<Rightarrow> AsyncWriter \<times> logw \<Rightarrow> string \<times> (AsyncWriter \<times> logw, unit) run" where
  "completeWrite L ec n = (\<lambda>(w, lw).
     case pendingWrites w of
       [] \<Rightarrow> ([], (Ret (), (w, lw)))
     | op # ops \<Rightarrow>
         if \<not> wo_intact op then ([], (Undefined ''the buffer of async_write was modified'', (w, lw)))
         else (take n (wo_data op), handleWriteFinished L ec n (w\<lparr>pendingWrites := ops\<rparr>, lw)))"

text \<open>Documented: a write that succeeds has written the whole buffer.\<close>

definition asio_write_contract :: "write_op \<Rightarrow> error_code \<Rightarrow> nat \<Rightarrow> bool" where
  "asio_write_contract op ec n = (n \<le> length (wo_data op) \<and> (failed ec \<or> n = length (wo_data op)))"

datatype writer_event = WriteCall string | WriteDone error_code nat

fun succeeds :: "writer_event \<Rightarrow> bool" where
  "succeeds (WriteCall data) = True"
| "succeeds (WriteDone ec n) = (\<not> failed ec)"

fun writer_run :: "extlib \<Rightarrow> writer_event list \<Rightarrow> AsyncWriter \<times> logw
    \<Rightarrow> string \<times> (AsyncWriter \<times> logw, unit) run" where
  "writer_run L [] st = ([], (Ret (), st))"
| "writer_run L (WriteCall data # es) st = writer_run L es (AsyncWriter_write data st)"
| "writer_run L (WriteDone ec n # es) st =
     (case completeWrite L ec n st of
        (sent, (Ret u, st')) \<Rightarrow> (case writer_run L es st' of (sent', r) \<Rightarrow> (sent @ sent', r))
      | (sent, r) \<Rightarrow> (sent, r))"

text \<open>The data of the calls that found the writer free.\<close>

fun accepted :: "extlib \<Rightarrow> writer_event list \<Rightarrow> AsyncWriter \<times> logw \<Rightarrow> string list" where
  "accepted L [] st = []"
| "accepted L (WriteCall data # es) st =
     (if writeInProgress (fst st) then [] else [data]) @ accepted L es (AsyncWriter_write data st)"
| "accepted L (WriteDone ec n # es) st = accepted L es (snd (snd (completeWrite L ec n st)))"

fun writes_ok :: "extlib \<Rightarrow> writer_event list \<Rightarrow> AsyncWriter \<times> logw \<Rightarrow> bool" where
  "writes_ok L [] st = True"
| "writes_ok L (WriteCall data # es) st = writes_ok L es (AsyncWriter_write data st)"
| "writes_ok L (WriteDone ec n # es) st =
     ((case pendingWrites (fst st) of [] \<Rightarrow> False | op # ops \<Rightarrow> asio_write_contract op ec n) \<and>
      writes_ok L es (snd (snd (completeWrite L ec n st))))"

subsection \<open>Invariant\<close>

text \<open>
  The flag is set exactly while a write is outstanding, there is at most one, and its buffer is
  the one it was started with.
\<close>

definition writer_inv :: "AsyncWriter \<Rightarrow> bool" where
  "writer_inv w \<longleftrightarrow>
     pendingWrites w = (if writeInProgress w then [\<lparr>wo_data = writeBuffer w, wo_intact = True\<rparr>] else [])"

lemma writer_inv_ctor [inv_intros]: "writer_inv AsyncWriter_ctor"
  by (simp add: writer_inv_def AsyncWriter_ctor_def)

lemma writer_inv_write [inv_intros]: "writer_inv w \<Longrightarrow> writer_inv (fst (AsyncWriter_write data (w, lw)))"
  by (simp add: writer_inv_def AsyncWriter_write_def tryLockWriting_def assign_writeBuffer_def
      doWrite_def clobber_def)

lemma writer_inv_complete [inv_intros]:
  "writer_inv w \<Longrightarrow> writer_inv (fst (snd (snd (completeWrite L ec n (w, lw)))))"
  by (simp add: writer_inv_def completeWrite_def handleWriteFinished_def Let_def)

interpretation writer_lock: try_lock
  "\<lambda>(w :: AsyncWriter, lw :: logw). writeInProgress w" tryLockWriting
  "\<lambda>(w, lw). (w\<lparr>writeInProgress := False\<rparr>, lw)"
  by unfold_locales (auto simp: tryLockWriting_def)

lemma AsyncWriter_write_cases:
  assumes "writer_inv w"
  shows "concat (map wo_data (pendingWrites (fst (AsyncWriter_write data (w, lw))))) =
    concat (map wo_data (pendingWrites w)) @ (if writeInProgress w then [] else data)"
  using assms by (simp add: writer_inv_def AsyncWriter_write_def tryLockWriting_def
      assign_writeBuffer_def doWrite_def clobber_def)

lemma completeWrite_success:
  assumes "writer_inv w" and "pendingWrites w = op # ops" and "asio_write_contract op ec n" and "\<not> failed ec"
    and "failed (asio_eof L)"
  shows "completeWrite L ec n (w, lw) =
    (concat (map wo_data (pendingWrites w)), (Ret (), (w\<lparr>pendingWrites := [], writeInProgress := False\<rparr>, lw)))"
  using assms by (auto simp: writer_inv_def completeWrite_def handleWriteFinished_def Let_def
      asio_write_contract_def split: if_splits)

text \<open>
  Every byte of an accepted write reaches the stream, whole and in order; what is not yet sent is
  the outstanding write.
\<close>

lemma writer_run_sends:
  assumes "failed (asio_eof L)" and "writer_inv w" and "writes_ok L es (w, lw)"
    and "list_all succeeds es"
  shows "\<exists>w' lw'. snd (writer_run L es (w, lw)) = (Ret (), (w', lw')) \<and> writer_inv w' \<and>
    fst (writer_run L es (w, lw)) @ concat (map wo_data (pendingWrites w')) =
      concat (map wo_data (pendingWrites w)) @ concat (accepted L es (w, lw))"
  using assms(2-4)
proof (induction es arbitrary: w lw)
  case Nil
  then show ?case by simp
next
  case (Cons e es)
  show ?case
  proof (cases e)
    case (WriteCall data)
    obtain w1 lw1 where w1: "AsyncWriter_write data (w, lw) = (w1, lw1)" by fastforce
    have inv: "writer_inv w1" using writer_inv_write [OF Cons.prems(1), of data lw] w1 by simp
    from Cons.prems WriteCall w1 Cons.IH [OF inv, of lw1]
      AsyncWriter_write_cases [OF Cons.prems(1), of data lw]
    show ?thesis by auto
  next
    case (WriteDone ec n)
    with Cons.prems obtain op ops where op: "pendingWrites w = op # ops" "asio_write_contract op ec n"
      and ec: "\<not> failed ec" by (auto split: list.splits)
    note c = completeWrite_success [OF Cons.prems(1) op ec assms(1), of lw]
    have "writer_inv (w\<lparr>pendingWrites := [], writeInProgress := False\<rparr>)" by (simp add: writer_inv_def)
    from Cons.IH [OF this, of lw] Cons.prems WriteDone c show ?thesis by (auto split: prod.splits)
  qed
qed

subsection \<open>Properties\<close>

lemma completeWrite_cases:
  assumes "writer_inv w"
  obtains (ok) sent w' lw' where "completeWrite L ec n (w, lw) = (sent, (Ret (), (w', lw')))" "writer_inv w'"
  | (error) sent w' lw' where "completeWrite L ec n (w, lw) = (sent, (Throw (SystemError ec), (w', lw')))"
      "failed ec" "writer_inv w'"
proof -
  obtain sent res w' lw' where c: "completeWrite L ec n (w, lw) = (sent, (res, (w', lw')))"
    by (cases "completeWrite L ec n (w, lw)") auto
  with writer_inv_complete [OF assms, of L ec n lw] have inv: "writer_inv w'" by simp
  have "res = Ret () \<or> res = Throw (SystemError ec) \<and> failed ec"
    using c assms by (auto simp: writer_inv_def completeWrite_def handleWriteFinished_def Let_def split: if_splits)
  with c inv show thesis by (auto intro: ok error)
qed

lemma writer_run_safe:
  "writer_inv w \<Longrightarrow> \<exists>sent res w' lw'. writer_run L es (w, lw) = (sent, (res, (w', lw'))) \<and> writer_inv w' \<and>
     (res = Ret () \<or> (\<exists>ec n. WriteDone ec n \<in> set es \<and> failed ec \<and> res = Throw (SystemError ec)))"
proof (induction es arbitrary: w lw)
  case (Cons e es)
  show ?case
  proof (cases e)
    case (WriteCall data)
    obtain w1 lw1 where w1: "AsyncWriter_write data (w, lw) = (w1, lw1)" by fastforce
    with writer_inv_write [OF Cons.prems, of data lw] have "writer_inv w1" by simp
    from Cons.IH [OF this, of lw1] w1 WriteCall show ?thesis by auto
  next
    case (WriteDone ec n)
    from Cons.prems show ?thesis
    proof (cases rule: completeWrite_cases [of w L ec n lw])
      case (ok sent w' lw')
      from Cons.IH [OF ok(2), of lw'] ok(1) WriteDone show ?thesis by (auto split: prod.splits)
    qed (use WriteDone in auto)
  qed
qed simp

text \<open>
  C18. The writer never mixes messages: however calls to \<^verbatim>\<open>write\<close> and completions are interleaved,
  the bytes on the stream followed by the bytes of the outstanding write are exactly the data of the
  accepted calls, whole and in call order. A refused call leaves no trace on the stream.
\<close>

theorem writes_sent_in_order:
  assumes "protobuf L utf8" and "writes_ok L es (AsyncWriter_ctor, lw)" and "list_all succeeds es"
  shows "\<exists>w' lw'. snd (writer_run L es (AsyncWriter_ctor, lw)) = (Ret (), (w', lw')) \<and>
    fst (writer_run L es (AsyncWriter_ctor, lw)) @ concat (map wo_data (pendingWrites w')) =
      concat (accepted L es (AsyncWriter_ctor, lw))"
  using writer_run_sends [OF protobuf.eof_failed [OF assms(1)] writer_inv_ctor assms(2,3)]
  by (auto simp: AsyncWriter_ctor_def)

theorem writes_sent_in_order_witness:
  "\<exists>w' lw'. snd (writer_run wire_lib [WriteCall ''ab'', WriteCall ''xx'', WriteDone no_error 2, WriteCall ''cd'']
        (AsyncWriter_ctor, initial_logw)) = (Ret (), (w', lw')) \<and>
    fst (writer_run wire_lib [WriteCall ''ab'', WriteCall ''xx'', WriteDone no_error 2, WriteCall ''cd'']
        (AsyncWriter_ctor, initial_logw)) @ concat (map wo_data (pendingWrites w')) = ''abcd''"
proof -
  let ?es = "[WriteCall ''ab'', WriteCall ''xx'', WriteDone no_error 2, WriteCall ''cd'']"
  note simps = AsyncWriter_write_def tryLockWriting_def assign_writeBuffer_def doWrite_def clobber_def
    AsyncWriter_ctor_def completeWrite_def handleWriteFinished_def asio_write_contract_def
  have ne: "no_error \<noteq> asio_eof wire_lib" using wire.eof_failed failed_no_error by metis
  have ok: "writes_ok wire_lib ?es (AsyncWriter_ctor, initial_logw)" by (simp add: simps)
  have acc: "concat (accepted wire_lib ?es (AsyncWriter_ctor, initial_logw)) = ''abcd''"
    using ne by (simp add: simps)
  from writes_sent_in_order [OF wire.protobuf_axioms ok] show ?thesis unfolding acc by simp
qed

text \<open>
  C19. The writer is safe for every sequence of calls and completions: the buffer of an outstanding
  write is never modified, so no completion is undefined; the flag is set exactly while a write is
  outstanding; and the only way out is an I/O error that Asio reported.
\<close>

theorem writer_safe:
  "\<exists>sent res w' lw'. writer_run L es (AsyncWriter_ctor, lw) = (sent, (res, (w', lw'))) \<and> writer_inv w' \<and>
     (res = Ret () \<or> (\<exists>ec n. WriteDone ec n \<in> set es \<and> failed ec \<and> res = Throw (SystemError ec)))"
  by (rule writer_run_safe [OF writer_inv_ctor])

end
