(* ===== verification/EchoHandler.thy ===== *)
theory EchoHandler
  imports Logger Protocol
begin

text \<open>
  The class \<^verbatim>\<open>message::EchoHandler\<close> (\<^verbatim>\<open>common/include/acs/message/EchoHandler.hpp\<close>): what each
  end does with a received echo message. The template parameter \<^verbatim>\<open>Sender\<close> of
  \<^verbatim>\<open>handleServer\<close> is the object the answer goes through; the members the function uses,
  \<^verbatim>\<open>getProtocol()\<close> and \<^verbatim>\<open>send\<close>, are arguments, and the locale \<open>Sender\<close> states what they
  have to do.
\<close>

subsection \<open>The handlers\<close>

definition echo_rsp_text :: "ChatMessage \<Rightarrow> string" where
  "echo_rsp_text m =
     ''ECHO_RSP id:'' @ show_nat (unat (cm_id m)) @ ''  text: \"\<newline>'' @ cm_text m @ ''\<newline>\"\<newline>''"

definition handleClient :: "MessageLite \<Rightarrow> logw \<Rightarrow> (logw, unit) run" where
  "handleClient message lw =
     (let lw1 = log_line ''DBG: handle Echo receive client'' lw
      in case message of
           MChatMessage m \<Rightarrow>
             (if cm_type m \<noteq> ChatMessage_ECHO_RESPONSE
              then (AssertFail ''echoMessage->type() == proto::ChatMessage::ECHO_RESPONSE'', lw1)
              else (Ret (), log_put (echo_rsp_text m) lw1))
         | _ \<Rightarrow> (Throw (DomainError ''Provided message is not of type proto::ChatMessage''), lw1))"

definition handleServer ::
    "extlib \<Rightarrow> ('c \<Rightarrow> Protocol) \<Rightarrow> (Protocol \<Rightarrow> 'c \<Rightarrow> 'c) \<Rightarrow> (string \<Rightarrow> 'c \<times> logw \<Rightarrow> 'c \<times> logw)
      \<Rightarrow> MessageLite \<Rightarrow> 'c \<times> logw \<Rightarrow> ('c \<times> logw, unit) run" where
  "handleServer L proto_of set_proto send message = (\<lambda>(sender, lw).
     let lw1 = log_line ''DBG: handle Echo receive server'' lw
     in case message of
          MChatMessage m \<Rightarrow>
            (if cm_type m \<noteq> ChatMessage_ECHO_REQUEST
             then (AssertFail ''echoMessage->type() == proto::ChatMessage::ECHO_REQUEST'', (sender, lw1))
             else
               (case serialize L (MChatMessage (m\<lparr>cm_type := ChatMessage_ECHO_RESPONSE\<rparr>)) (proto_of sender) of
                  (res, P') \<Rightarrow>
                    andThen (res, (set_proto P' sender, lw1)) (\<lambda>wireMessage st.
                      (Ret (), send wireMessage st))))
        | _ \<Rightarrow> (Throw (DomainError ''Provided message is not of type proto::ChatMessage''), (sender, lw1)))"

subsection \<open>What the answer is\<close>

definition echo_response :: "ChatMessage \<Rightarrow> ChatMessage" where
  "echo_response m = m\<lparr>cm_type := ChatMessage_ECHO_RESPONSE\<rparr>"

definition chat_body :: "extlib \<Rightarrow> ChatMessage \<Rightarrow> string" where
  "chat_body L m = the (pb_SerializeToString L (MChatMessage m))"

context protobuf
begin

lemma chat_body_framable:
  assumes "length (cm_text m) + length (cm_unknown m) + 23 < 2 ^ 31" and "cm_type m \<noteq> 0"
  shows "pb_SerializeToString L (MChatMessage m) = Some (chat_body L m)"
    and "framable (chat_body L m)" and "length (chat_body L m) \<le> length (cm_text m) + length (cm_unknown m) + 23"
proof -
  from chat_serialize [OF assms(1)] obtain bs where bs: "pb_SerializeToString L (MChatMessage m) = Some bs"
    "length bs = pb_ByteSizeLong L (MChatMessage m)" "length bs \<le> length (cm_text m) + length (cm_unknown m) + 23" .
  show "pb_SerializeToString L (MChatMessage m) = Some (chat_body L m)" using bs by (simp add: chat_body_def)
  show "length (chat_body L m) \<le> length (cm_text m) + length (cm_unknown m) + 23" using bs by (simp add: chat_body_def)
  show "framable (chat_body L m)"
    using bs chat_size_pos [OF assms(2)] assms(1) by (simp add: chat_body_def framable_def)
qed

lemma handleServer_request:
  assumes "cm_type m = ChatMessage_ECHO_REQUEST" and "length (cm_text m) + length (cm_unknown m) + 23 < 2 ^ 31"
    and "Protocol_inv (proto_of c)"
  shows "handleServer L proto_of set_proto send (MChatMessage m) (c, lw) =
    (Ret (), send (frame L (chat_body L (echo_response m)))
       (set_proto ((proto_of c)\<lparr>serFramePrefixCache := ECHO_prefix (chat_body L (echo_response m))\<rparr>) c,
        log_line ''DBG: handle Echo receive server'' lw))"
proof -
  have r: "length (cm_text (echo_response m)) + length (cm_unknown (echo_response m)) + 23 < 2 ^ 31" "cm_type (echo_response m) \<noteq> 0"
    using assms(2) by (simp_all add: echo_response_def)
  note b = chat_body_framable [OF r]
  from serialize_eq [OF assms(3) b(1,2)] assms(1) show ?thesis
    by (simp add: handleServer_def echo_response_def Let_def)
qed

end

subsection \<open>The interface of a sender\<close>

text \<open>
  Replacing the protocol object is a field update, and sending through an idle sender makes the
  message its only outstanding operation and logs nothing.
\<close>

locale Sender =
  fixes proto_of :: "'c \<Rightarrow> Protocol"
    and set_proto :: "Protocol \<Rightarrow> 'c \<Rightarrow> 'c"
    and send :: "string \<Rightarrow> 'c \<times> logw \<Rightarrow> 'c \<times> logw"
    and idle :: "'c \<Rightarrow> bool"
    and outstanding :: "'c \<Rightarrow> 'o list"
    and op_of :: "string \<Rightarrow> 'o"
  assumes proto_set: "proto_of (set_proto P c) = P"
    and idle_set: "idle (set_proto P c) = idle c"
    and send_idle: "idle c \<Longrightarrow> outstanding (fst (send msg (c, lw))) = [op_of msg]"
    and send_log: "idle c \<Longrightarrow> snd (send msg (c, lw)) = lw"
    and send_proto: "proto_of (fst (send msg (c, lw))) = proto_of c"
begin

text \<open>An idle sender answers a request with one frame: the request with its type changed.\<close>

lemma answer:
  assumes "protobuf L utf8" and "cm_type m = ChatMessage_ECHO_REQUEST"
    and "length (cm_text m) + length (cm_unknown m) + 23 < 2 ^ 31" and "Protocol_inv (proto_of c)" and "idle c"
    and "F = frame L (chat_body L (echo_response m))"
    and "c' = set_proto ((proto_of c)\<lparr>serFramePrefixCache := ECHO_prefix (chat_body L (echo_response m))\<rparr>) c"
    and "lw' = log_line ''DBG: handle Echo receive server'' lw"
  shows "handleServer L proto_of set_proto send (MChatMessage m) (c, lw) = (Ret (), send F (c', lw'))"
    and "outstanding (fst (send F (c', lw'))) = [op_of F]" and "snd (send F (c', lw')) = lw'"
    and "Protocol_inv (proto_of (fst (send F (c', lw'))))"
proof -
  have idle: "idle c'" using assms(5,7) by (simp add: idle_set)
  show "handleServer L proto_of set_proto send (MChatMessage m) (c, lw) = (Ret (), send F (c', lw'))"
    using protobuf.handleServer_request [where proto_of = proto_of and c = c, OF assms(1-4)] assms(6-8) by simp
  show "outstanding (fst (send F (c', lw'))) = [op_of F]" by (rule send_idle [OF idle])
  show "snd (send F (c', lw')) = lw'" by (rule send_log [OF idle])
  show "Protocol_inv (proto_of (fst (send F (c', lw'))))"
    using assms(4,7) by (simp add: send_proto proto_set Protocol_inv_def)
qed

end

end
