(* ===== verification/TcpConnection.thy ===== *)
theory TcpConnection
  imports AsyncReader AsyncWriter EchoHandler
begin

text \<open>
  The server's end of a connection: \<^verbatim>\<open>conn::TcpConnection\<close>
  (\<^verbatim>\<open>server/include/acs/conn/TcpConnection.hpp\<close>, \<^verbatim>\<open>server/src/conn/TcpConnection.cpp\<close>) and the
  start of the two client handlers (\<^verbatim>\<open>server/src/echo/EchoClientHandler.cpp\<close>,
  \<^verbatim>\<open>server/src/debug/TestClientHandler.cpp\<close>). The operations of this theory work on one
  connection and the log; those that can destroy the connection are in theory
  \<open>Connection_Manager\<close>.
\<close>

subsection \<open>State\<close>

text \<open>The concrete client handlers; the base class is abstract.\<close>

datatype client_handler = EchoClientHandler | TestClientHandler

text \<open>The only callback a connection's reader is given: \<^verbatim>\<open>_handleRead\<close>.\<close>

datatype tcp_callback = TcpConnection_handleRead_cb

record TcpConnection =
  tc_id :: size_t
  tc_reader :: "tcp_callback AsyncReader"
  tc_handler :: client_handler
  tc_protocol :: Protocol
  tc_sendMsg :: string
  tc_writeInProgress :: bool
  tc_pendingWrites :: "write_op list"

type_synonym conn_state = "TcpConnection \<times> logw"

definition TcpConnection_ctor :: "extlib \<Rightarrow> size_t \<Rightarrow> client_handler \<Rightarrow> TcpConnection outcome" where
  "TcpConnection_ctor L ident handlerType =
     (case Protocol_ctor L FRAMING_PROTOBUF_SIZE_TYPE of
        Ret P \<Rightarrow> Ret \<lparr>tc_id = ident, tc_reader = AsyncReader_ctor MAX_READ_BUFFER_SIZE_BYTES,
                     tc_handler = handlerType, tc_protocol = P, tc_sendMsg = [],
                     tc_writeInProgress = False, tc_pendingWrites = []\<rparr>
      | Throw e \<Rightarrow> Throw e | AssertFail m \<Rightarrow> AssertFail m | Undefined m \<Rightarrow> Undefined m)"

text \<open>The accessors.\<close>

definition TcpConnection_getId :: "TcpConnection \<Rightarrow> size_t" where
  "TcpConnection_getId c = tc_id c"

definition TcpConnection_getProtocol :: "TcpConnection \<Rightarrow> Protocol" where
  "TcpConnection_getProtocol c = tc_protocol c"

text \<open>The static \<^verbatim>\<open>_MESSAGE_DESCR_SIZE\<close>, 0 until it is set; no other function looks at it.\<close>

record connection_statics =
  MESSAGE_DESCR_SIZE :: nat

definition initial_connection_statics :: connection_statics where
  "initial_connection_statics = \<lparr>MESSAGE_DESCR_SIZE = 0\<rparr>"

definition setMessageDescriptorSize :: "nat \<Rightarrow> connection_statics \<Rightarrow> connection_statics" where
  "setMessageDescriptorSize n st = st\<lparr>MESSAGE_DESCR_SIZE := n\<rparr>"

text \<open>\<^verbatim>\<open>operator==\<close> and \<^verbatim>\<open>operator<<\<close>\<close>

definition same_connection :: "TcpConnection \<Rightarrow> TcpConnection \<Rightarrow> bool" where
  "same_connection a b = (tc_id a = tc_id b)"

definition show_connection :: "TcpConnection \<Rightarrow> string" where
  "show_connection c = ''Connection(id= '' @ show_nat (unat (TcpConnection_getId c)) @ '' )''"

subsection \<open>Sending\<close>

definition TcpConnection_doSend :: "conn_state \<Rightarrow> conn_state" where
  "TcpConnection_doSend = (\<lambda>(c, lw).
     if tc_writeInProgress c
     then (c, logError_line
             ''Connection::doSend err: Write operation initialized when another is in progress'' lw)
     else (c\<lparr>tc_writeInProgress := True,
             tc_pendingWrites := tc_pendingWrites c @ [\<lparr>wo_data = tc_sendMsg c, wo_intact = True\<rparr>]\<rparr>, lw))"

text \<open>Both overloads. The message is assigned before the flag is looked at.\<close>

definition TcpConnection_send :: "string \<Rightarrow> conn_state \<Rightarrow> conn_state" where
  "TcpConnection_send message = (\<lambda>(c, lw).
     TcpConnection_doSend
       (c\<lparr>tc_sendMsg := message, tc_pendingWrites := clobber (tc_pendingWrites c)\<rparr>, lw))"

subsection \<open>Receiving\<close>

definition TcpConnection_startReceive :: "conn_state \<Rightarrow> (conn_state, unit) run" where
  "TcpConnection_startReceive = (\<lambda>(c, lw).
     case readAsyncProtoInfOccupy TcpConnection_handleRead_cb (tc_reader c, tc_protocol c, lw) of
       (res, (rd, P, lw')) \<Rightarrow> (res, (c\<lparr>tc_reader := rd, tc_protocol := P\<rparr>, lw')))"

definition TcpConnection_set_protocol :: "Protocol \<Rightarrow> TcpConnection \<Rightarrow> TcpConnection" where
  "TcpConnection_set_protocol P c = c\<lparr>tc_protocol := P\<rparr>"

definition TcpConnection_handleRead :: "extlib \<Rightarrow> string \<Rightarrow> conn_state \<Rightarrow> (conn_state, unit) run" where
  "TcpConnection_handleRead L inputMessageData = (\<lambda>(c, lw).
     case deserialize L inputMessageData (int (length inputMessageData)) (tc_protocol c) of
       (res, P) \<Rightarrow>
         andThen (res, (c\<lparr>tc_protocol := P\<rparr>, lw)) (\<lambda>message st.
           handleServer L TcpConnection_getProtocol TcpConnection_set_protocol TcpConnection_send message st))"

text \<open>
  A completed read of the connection's socket: the reader's handler, then the callback it
  calls.
\<close>

definition TcpConnection_onRead :: "extlib \<Rightarrow> read_event \<Rightarrow> conn_state \<Rightarrow> (conn_state, unit) run" where
  "TcpConnection_onRead L e = (\<lambda>(c, lw).
     case completeRead L e (tc_reader c, tc_protocol c, lw) of
       (res, (rd, P, lw')) \<Rightarrow>
         andThen (res, (c\<lparr>tc_reader := rd, tc_protocol := P\<rparr>, lw')) (\<lambda>d st.
           case d of
             NoCall \<Rightarrow> (Ret (), st)
           | Call TcpConnection_handleRead_cb data reset \<Rightarrow>
               andThen (TcpConnection_handleRead L data st) (\<lambda>_ (c', lw').
                 (Ret (), (if reset then c'\<lparr>tc_reader := (tc_reader c')\<lparr>callback := None\<rparr>\<rparr> else c', lw')))))"

subsection \<open>Starting\<close>

definition welcome_message :: ChatMessage where
  "welcome_message = ChatMessage_default\<lparr>cm_id := 1,
     cm_text := ''Welcome to ACS chat!\<newline>Just type your message.'',
     cm_type := ChatMessage_ECHO_RESPONSE\<rparr>"

definition EchoClientHandler_handleStart :: "extlib \<Rightarrow> conn_state \<Rightarrow> (conn_state, unit) run" where
  "EchoClientHandler_handleStart L = (\<lambda>(c, lw).
     let message = MChatMessage welcome_message;
         framePrefix = FramePrefix_default\<lparr>fp_size := of_nat (pb_ByteSizeLong L message),
                                           fp_type := FramePrefix_ECHO\<rparr>
     in case pb_SerializeToString L (MFramePrefix framePrefix) of
          None \<Rightarrow> (Ret (), (c, logError_line ''Failed to serialize frame prefix'' lw))
        | Some out \<Rightarrow>
            (case pb_SerializeToString L message of
               None \<Rightarrow> (Ret (), (c, logError_line ''Failed to serialize chat message'' lw))
             | Some body \<Rightarrow>
                 (if length (out @ body) \<noteq>
                       pb_ByteSizeLong L (MFramePrefix framePrefix) + unat (fp_size framePrefix)
                  then (AssertFail ''output.size() == PREFIX_SIZE + framePrefix.size()'', (c, lw))
                  else (Ret (), TcpConnection_send (out @ body) (c, lw)))))"

definition TestClientHandler_handleStart :: "extlib \<Rightarrow> conn_state \<Rightarrow> (conn_state, unit) run" where
  "TestClientHandler_handleStart L = (\<lambda>(c, lw).
     let message = ChatMessage_default\<lparr>cm_id := 6, cm_text := ''Test text\<newline>Next test line.\<newline>'',
                                       cm_type := ChatMessage_TEST\<rparr>
     in case pb_SerializeToString L (MChatMessage message) of
          None \<Rightarrow> (Ret (), (c, logError_line ''Failed to serialize chat message'' lw))
        | Some out \<Rightarrow> (Ret (), TcpConnection_send out (c, lw)))"

text \<open>The virtual call \<^verbatim>\<open>_handler->handleStart()\<close>.\<close>

fun handleStart :: "extlib \<Rightarrow> client_handler \<Rightarrow> conn_state \<Rightarrow> (conn_state, unit) run" where
  "handleStart L EchoClientHandler st = EchoClientHandler_handleStart L st"
| "handleStart L TestClientHandler st = TestClientHandler_handleStart L st"

text \<open>
  The base class \<^verbatim>\<open>ClientHandler\<close> has two more functions that nobody overrides or calls and that do
  nothing; \<^verbatim>\<open>close\<close> in particular does not close the connection.
\<close>

definition ClientHandler_handleClientClose :: "conn_state \<Rightarrow> conn_state" where
  "ClientHandler_handleClientClose st = st"

definition ClientHandler_close :: "conn_state \<Rightarrow> conn_state" where
  "ClientHandler_close st = st"

definition TcpConnection_start :: "extlib \<Rightarrow> conn_state \<Rightarrow> (conn_state, unit) run" where
  "TcpConnection_start L st =
     andThen (handleStart L (tc_handler (fst st)) st) (\<lambda>_. TcpConnection_startReceive)"

subsection \<open>Invariants\<close>

text \<open>
  The flag is set exactly while a write is outstanding. Unlike for \<^verbatim>\<open>AsyncWriter\<close>, the buffer
  of that write is not part of the invariant: \<^verbatim>\<open>send\<close> can change it.
\<close>

definition send_inv :: "TcpConnection \<Rightarrow> bool" where
  "send_inv c \<longleftrightarrow> length (tc_pendingWrites c) = (if tc_writeInProgress c then 1 else 0)"

definition conn_inv :: "TcpConnection \<Rightarrow> bool" where
  "conn_inv c \<longleftrightarrow> send_inv c \<and> Protocol_inv (tc_protocol c) \<and>
     maxBufferSize (tc_reader c) = MAX_READ_BUFFER_SIZE_BYTES"

text \<open>A started connection: the invariant, and the reader is in the frame loop.\<close>

definition conn_running :: "TcpConnection \<Rightarrow> bool" where
  "conn_running c \<longleftrightarrow> conn_inv c \<and> proto_inv TcpConnection_handleRead_cb (tc_reader c) (tc_protocol c)"

definition conn_idle :: "TcpConnection \<Rightarrow> bool" where
  "conn_idle c \<longleftrightarrow> \<not> tc_writeInProgress c \<and> tc_pendingWrites c = []"

subsection \<open>Lemmas\<close>

lemma TcpConnection_getters [simp]: "TcpConnection_getId = tc_id" "TcpConnection_getProtocol = tc_protocol"
  by (simp_all add: fun_eq_iff TcpConnection_getId_def TcpConnection_getProtocol_def)

lemma length_clobber [simp]: "length (clobber ops) = length ops"
  by (simp add: clobber_def)

lemma TcpConnection_send_fields [simp]:
  "tc_id (fst (TcpConnection_send m (c, lw))) = tc_id c"
  "tc_reader (fst (TcpConnection_send m (c, lw))) = tc_reader c"
  "tc_handler (fst (TcpConnection_send m (c, lw))) = tc_handler c"
  "tc_protocol (fst (TcpConnection_send m (c, lw))) = tc_protocol c"
  by (simp_all add: TcpConnection_send_def TcpConnection_doSend_def)

lemma TcpConnection_send_idle:
  "conn_idle c \<Longrightarrow> TcpConnection_send m (c, lw) =
     (c\<lparr>tc_sendMsg := m, tc_writeInProgress := True, tc_pendingWrites := [\<lparr>wo_data = m, wo_intact = True\<rparr>]\<rparr>, lw)"
  by (simp add: conn_idle_def TcpConnection_send_def TcpConnection_doSend_def clobber_def)

lemma send_inv_send [inv_intros]: "send_inv c \<Longrightarrow> send_inv (fst (TcpConnection_send m (c, lw)))"
  by (simp add: send_inv_def TcpConnection_send_def TcpConnection_doSend_def)

lemma conn_inv_send [inv_intros]: "conn_inv c \<Longrightarrow> conn_inv (fst (TcpConnection_send m (c, lw)))"
  using send_inv_send by (simp add: conn_inv_def)

lemma conn_running_send [inv_intros]: "conn_running c \<Longrightarrow> conn_running (fst (TcpConnection_send m (c, lw)))"
  using conn_inv_send by (simp add: conn_running_def)

interpretation conn_sender: Sender tc_protocol TcpConnection_set_protocol TcpConnection_send conn_idle
  tc_pendingWrites "\<lambda>msg. \<lparr>wo_data = msg, wo_intact = True\<rparr>"
  by unfold_locales (simp_all add: TcpConnection_set_protocol_def TcpConnection_send_idle,
      simp add: conn_idle_def)

interpretation conn_send_lock: try_lock
  "\<lambda>(c, lw :: logw). tc_writeInProgress c"
  "\<lambda>(c, lw). (\<not> tc_writeInProgress c, TcpConnection_doSend (c, lw))"
  "\<lambda>(c, lw). (c\<lparr>tc_writeInProgress := False\<rparr>, lw)"
  by unfold_locales (auto simp: TcpConnection_doSend_def)

subsection \<open>Lemmas: starting a connection\<close>

definition conn_fresh :: "TcpConnection \<Rightarrow> bool" where
  "conn_fresh c \<longleftrightarrow> conn_inv c \<and> conn_idle c \<and> tc_reader c = AsyncReader_ctor MAX_READ_BUFFER_SIZE_BYTES"

context protobuf
begin

lemma TcpConnection_ctor_eq:
  "\<exists>c. TcpConnection_ctor L i k = Ret c \<and> conn_fresh c \<and> tc_id c = i \<and> tc_handler c = k"
  by (simp add: TcpConnection_ctor_def Protocol_ctor_eq conn_fresh_def conn_inv_def conn_idle_def
      send_inv_def Protocol_inv_def AsyncReader_ctor_def)

lemma welcome_body:
  "pb_SerializeToString L (MChatMessage welcome_message) = Some (chat_body L welcome_message)"
  "framable (chat_body L welcome_message)"
  by (rule chat_body_framable; simp add: welcome_message_def ChatMessage_default_def)+

lemma EchoClientHandler_handleStart_eq:
  "EchoClientHandler_handleStart L (c, lw) =
     (Ret (), TcpConnection_send (frame L (chat_body L welcome_message)) (c, lw))"
proof -
  let ?b = "chat_body L welcome_message"
  have p: "FramePrefix_default\<lparr>fp_size := of_nat (pb_ByteSizeLong L (MChatMessage welcome_message)),
      fp_type := FramePrefix_ECHO\<rparr> = ECHO_prefix ?b"
    by (simp add: FramePrefix_default_def ECHO_prefix_def byte_size [OF welcome_body(1)])
  from ECHO_prefix_bytes [OF welcome_body(2)] obtain pre
    where pre: "pb_SerializeToString L (MFramePrefix (ECHO_prefix ?b)) = Some pre"
      "length pre = FRAME_PREFIX_SIZE" "frame L ?b = pre @ ?b" .
  have "pb_ByteSizeLong L (MFramePrefix (ECHO_prefix ?b)) = length pre" by (rule byte_size [OF pre(1)])
  with pre p show ?thesis
    by (simp add: EchoClientHandler_handleStart_def welcome_body fp_size_ECHO_prefix [OF welcome_body(2)])
qed

lemma start_echo_connection:
  assumes "conn_fresh c" and "tc_handler c = EchoClientHandler"
  shows "\<exists>c'. TcpConnection_start L (c, lw) = (Ret (), (c', lw)) \<and> conn_running c' \<and>
    await_prefix (tc_protocol c') (tc_reader c') \<and> tc_id c' = tc_id c \<and> tc_handler c' = tc_handler c \<and>
    tc_pendingWrites c' = [\<lparr>wo_data = frame L (chat_body L welcome_message), wo_intact = True\<rparr>]"
proof -
  let ?m = "frame L (chat_body L welcome_message)"
  obtain c1 where c1: "TcpConnection_send ?m (c, lw) = (c1, lw)"
    and pend: "tc_pendingWrites c1 = [\<lparr>wo_data = ?m, wo_intact = True\<rparr>]"
    using TcpConnection_send_idle [of c ?m lw] assms(1) by (simp add: conn_fresh_def)
  have same: "tc_id c1 = tc_id c" "tc_handler c1 = tc_handler c" "tc_reader c1 = tc_reader c"
    "tc_protocol c1 = tc_protocol c" using TcpConnection_send_fields [of ?m c lw] c1 by simp_all
  have inv: "conn_inv c1" using conn_inv_send [of c ?m lw] assms(1) c1 by (simp add: conn_fresh_def)
  then have ps: "PREFIX_SIZE (tc_protocol c1) \<le> MAX_READ_BUFFER_SIZE_BYTES"
    by (simp add: conn_inv_def Protocol_inv_def FRAME_PREFIX_SIZE_def MAX_READ_BUFFER_SIZE_BYTES_def)
  have "MAX_READ_BUFFER_SIZE_BYTES < 2 ^ 64" by (simp add: MAX_READ_BUFFER_SIZE_BYTES_def)
  from start_proto [OF ps this, of TcpConnection_handleRead_cb lw] obtain rd
    where rd: "readAsyncProtoInfOccupy TcpConnection_handleRead_cb (tc_reader c1, tc_protocol c1, lw) =
        (Ret (), (rd, tc_protocol c1, lw))" "proto_mode TcpConnection_handleRead_cb rd (tc_protocol c1)"
      "await_prefix (tc_protocol c1) rd" "maxBufferSize rd = MAX_READ_BUFFER_SIZE_BYTES"
    using assms(1) same(3) by (auto simp: conn_fresh_def)
  have start: "TcpConnection_start L (c, lw) = (Ret (), (c1\<lparr>tc_reader := rd\<rparr>, lw))"
    by (simp add: TcpConnection_start_def assms(2) EchoClientHandler_handleStart_eq c1
        TcpConnection_startReceive_def rd(1))
  have "conn_running (c1\<lparr>tc_reader := rd\<rparr>)"
    using inv rd by (simp add: conn_running_def conn_inv_def send_inv_def proto_inv_def)
  with start rd same pend show ?thesis by simp
qed

end

subsection \<open>Lemmas: any peer\<close>

text \<open>
  What a completed read can end in, whatever the peer sent: the connection goes on, an
  exception of the frame loop or of parsing, or one of the two assertions on received types.
\<close>

fun peer_exn :: "exn \<Rightarrow> bool" where
  "peer_exn (RuntimeError m) = (m \<in> {''Wrong frame prefix format. Parse failed'',
     ''Wrong chat message format. Parse failed'', ''Failed to serialize chat message''})"
| "peer_exn x = frame_loop_exn x"

definition peer_assertions :: "string set" where
  "peer_assertions = {''_deserFramePrefixCache.type() == proto::FramePrefix::ECHO'',
     ''echoMessage->type() == proto::ChatMessage::ECHO_REQUEST''}"

fun conn_step_ok :: "TcpConnection \<Rightarrow> (conn_state, unit) run \<Rightarrow> bool" where
  "conn_step_ok c (Ret u, (c', lw')) = (conn_running c' \<and> tc_id c' = tc_id c \<and> tc_handler c' = tc_handler c)"
| "conn_step_ok c (Throw x, (c', lw')) = (peer_exn x \<and> tc_id c' = tc_id c)"
| "conn_step_ok c (AssertFail m, (c', lw')) = (m \<in> peer_assertions \<and> tc_id c' = tc_id c)"
| "conn_step_ok c (Undefined m, st) = False"

lemma frame_loop_peer_exn: "frame_loop_exn x \<Longrightarrow> peer_exn x"
  by (cases x) auto

lemma conn_running_protocol:
  "conn_running c \<Longrightarrow> PREFIX_SIZE P = PREFIX_SIZE (tc_protocol c) \<Longrightarrow> conn_running (c\<lparr>tc_protocol := P\<rparr>)"
  by (auto simp: conn_running_def conn_inv_def send_inv_def Protocol_inv_def proto_inv_def proto_mode_def
      await_prefix_def)

lemma conn_running_reader:
  assumes "conn_running c" and "proto_inv TcpConnection_handleRead_cb rd P"
    and "PREFIX_SIZE P = PREFIX_SIZE (tc_protocol c)" and "maxBufferSize rd = maxBufferSize (tc_reader c)"
  shows "conn_running (c\<lparr>tc_reader := rd, tc_protocol := P\<rparr>)"
  using assms by (simp add: conn_running_def conn_inv_def send_inv_def Protocol_inv_def)

context protobuf
begin

lemma handleRead_step:
  assumes "conn_running c"
  shows "conn_step_ok c (TcpConnection_handleRead L data (c, lw))"
proof -
  let ?P = "tc_protocol c"
  have inv: "Protocol_inv ?P" using assms by (simp add: conn_running_def conn_inv_def)
  show ?thesis
  proof (cases rule: deserialize_cases [of L data "int (length data)" ?P])
    case (message m)
    note msg = message(1)
    show ?thesis
    proof (cases "cm_type m = ChatMessage_ECHO_REQUEST")
      case False
      then show ?thesis by (simp add: TcpConnection_handleRead_def msg handleServer_def Let_def peer_assertions_def)
    next
      case True
      have "cm_type (m\<lparr>cm_type := ChatMessage_ECHO_RESPONSE\<rparr>) \<noteq> 0" by simp
      then show ?thesis
      proof (rule serialize_chat_cases [OF inv])
        fix body
        let ?P' = "?P\<lparr>serFramePrefixCache := ECHO_prefix body\<rparr>"
        let ?lw = "log_line ''DBG: handle Echo receive server'' lw"
        assume s: "serialize L (MChatMessage (m\<lparr>cm_type := ChatMessage_ECHO_RESPONSE\<rparr>)) ?P = (Ret (frame L body), ?P')"
        obtain c' lw' where c': "TcpConnection_send (frame L body) (c\<lparr>tc_protocol := ?P'\<rparr>, ?lw) = (c', lw')"
          by fastforce
        have "conn_running (c\<lparr>tc_protocol := ?P'\<rparr>)" by (rule conn_running_protocol [OF assms]) simp
        from conn_running_send [OF this, of "frame L body" ?lw] c' have "conn_running c'" by simp
        moreover from TcpConnection_send_fields [of "frame L body" "c\<lparr>tc_protocol := ?P'\<rparr>" ?lw] c'
        have "tc_id c' = tc_id c" "tc_handler c' = tc_handler c" by simp_all
        ultimately show ?thesis using c' s True
          by (simp add: TcpConnection_handleRead_def msg handleServer_def TcpConnection_set_protocol_def Let_def)
      next
        fix P'
        assume "serialize L (MChatMessage (m\<lparr>cm_type := ChatMessage_ECHO_RESPONSE\<rparr>)) ?P =
          (Throw (RuntimeError ''Failed to serialize chat message''), P')"
        then show ?thesis using True
          by (simp add: TcpConnection_handleRead_def msg handleServer_def TcpConnection_set_protocol_def Let_def)
      qed
    qed
  qed (simp_all add: TcpConnection_handleRead_def peer_assertions_def)
qed

lemma onRead_step:
  assumes "conn_running c" and "completion_ok e (tc_reader c)"
  shows "conn_step_ok c (TcpConnection_onRead L e (c, lw))"
proof -
  obtain res rd P lw' where r: "completeRead L e (tc_reader c, tc_protocol c, lw) = (res, (rd, P, lw'))"
    by (cases "completeRead L e (tc_reader c, tc_protocol c, lw)") auto
  have "proto_inv TcpConnection_handleRead_cb (tc_reader c) (tc_protocol c)"
    using assms(1) by (simp add: conn_running_def)
  from proto_step [OF this assms(2), of L lw] r
  have ok: "proto_step_ok TcpConnection_handleRead_cb (maxBufferSize (tc_reader c)) (PREFIX_SIZE (tc_protocol c))
      (res, (rd, P, lw'))" by simp
  show ?thesis
  proof (cases res)
    case (Ret d)
    let ?c = "c\<lparr>tc_reader := rd, tc_protocol := P\<rparr>"
    from ok Ret have run: "conn_running ?c" by (intro conn_running_reader [OF assms(1)]) auto
    from ok Ret consider "d = NoCall" | data where "d = Call TcpConnection_handleRead_cb data False" by auto
    then show ?thesis
    proof cases
      case 1
      with r Ret run show ?thesis by (simp add: TcpConnection_onRead_def)
    next
      case 2
      obtain res' c' lw'' where h: "TcpConnection_handleRead L data (?c, lw') = (res', (c', lw''))"
        by (cases "TcpConnection_handleRead L data (?c, lw')") auto
      with handleRead_step [OF run, of data lw'] r Ret 2 show ?thesis
        by (cases res') (simp_all add: TcpConnection_onRead_def)
    qed
  qed (use ok r frame_loop_peer_exn in \<open>auto simp: TcpConnection_onRead_def\<close>)
qed

end

lemma send_pending:
  "send_inv c \<Longrightarrow> tc_pendingWrites (fst (TcpConnection_send m (c, lw))) =
     (if tc_pendingWrites c = [] then [\<lparr>wo_data = m, wo_intact = True\<rparr>] else clobber (tc_pendingWrites c))"
  by (auto simp: send_inv_def TcpConnection_send_def TcpConnection_doSend_def clobber_def split: if_splits)

context protobuf
begin

text \<open>What the callback has done when it returns: it answers a request.\<close>

lemma handleRead_Ret:
  assumes "Protocol_inv (tc_protocol c)" and "send_inv c"
    and "TcpConnection_handleRead L data (c, lw) = (Ret (), (c', lw'))"
  obtains m where "pb_ChatMessage_ParseFromArray L data (int (length data)) = Some m"
    and "cm_type m = ChatMessage_ECHO_REQUEST"
    and "tc_pendingWrites c' = (if tc_pendingWrites c = []
      then [\<lparr>wo_data = frame L (chat_body L (echo_response m)), wo_intact = True\<rparr>] else clobber (tc_pendingWrites c))"
proof (cases rule: deserialize_cases [of L data "int (length data)" "tc_protocol c"])
  case (message m)
  let ?m = "MChatMessage (echo_response m)"
  obtain res P where ser: "serialize L ?m (tc_protocol c) = (res, P)" by fastforce
  have type: "cm_type m = ChatMessage_ECHO_REQUEST"
    using assms(3) message(1) by (auto simp: TcpConnection_handleRead_def handleServer_def Let_def split: if_splits)
  with assms(3) message(1) ser obtain w where w: "res = Ret w"
    and c': "TcpConnection_send w (c\<lparr>tc_protocol := P\<rparr>, log_line ''DBG: handle Echo receive server'' lw) = (c', lw')"
    by (cases res) (simp_all add: TcpConnection_handleRead_def handleServer_def echo_response_def Let_def
        TcpConnection_set_protocol_def)
  have "send_inv (c\<lparr>tc_protocol := P\<rparr>)" using assms(2) by (simp add: send_inv_def)
  from send_pending [OF this, of w "log_line ''DBG: handle Echo receive server'' lw"]
  have pend: "tc_pendingWrites c' = (if tc_pendingWrites c = [] then [\<lparr>wo_data = w, wo_intact = True\<rparr>]
      else clobber (tc_pendingWrites c))" by (simp add: c')
  from serialize_RetD [OF assms(1), of ?m w] ser w have "w = frame L (chat_body L (echo_response m))"
    by (auto simp: chat_body_def)
  with pend message(3) type show thesis by (intro that [of m]) simp_all
qed (use assms(3) in \<open>simp_all add: TcpConnection_handleRead_def\<close>)

text \<open>
  What a completed read has done when its handler returns: nothing to the outstanding writes, or
  the reader was waiting for a message, and the message was a request that is answered.
\<close>

lemma onRead_Ret:
  assumes "conn_running c" and "completion_ok (ec, n, data) (tc_reader c)"
    and "TcpConnection_onRead L (ec, n, data) (c, lw) = (Ret (), (c', lw'))"
  obtains (prefix) "await_prefix (tc_protocol c) (tc_reader c)" "tc_pendingWrites c' = tc_pendingWrites c"
  | (request) k m where "await_message k (tc_reader c)"
      "pb_ChatMessage_ParseFromArray L data (int (length data)) = Some m" "cm_type m = ChatMessage_ECHO_REQUEST"
      "tc_pendingWrites c' = (if tc_pendingWrites c = []
        then [\<lparr>wo_data = frame L (chat_body L (echo_response m)), wo_intact = True\<rparr>] else clobber (tc_pendingWrites c))"
proof -
  let ?rd = "tc_reader c" and ?P = "tc_protocol c"
  have inv: "proto_mode TcpConnection_handleRead_cb ?rd ?P" "Protocol_inv ?P" "send_inv c"
    using assms(1) by (simp_all add: conn_running_def conn_inv_def proto_inv_def)
  have "\<not> failed ec"
  proof
    assume "failed ec"
    moreover obtain q where "pendingReads ?rd = [q]"
      using assms(1) by (auto simp: conn_running_def proto_inv_def await_prefix_def await_message_def)
    ultimately show False using completeRead_failed [of ec ?rd q L n data ?P lw] assms(3)
      by (auto simp: TcpConnection_onRead_def)
  qed
  note ok = this
  consider "await_prefix ?P ?rd" | k where "await_message k ?rd"
    using assms(1) by (auto simp: conn_running_def proto_inv_def)
  then show thesis
  proof cases
    case 1
    obtain res rd P lw1 where r: "completeRead L (ec, n, data) (?rd, ?P, lw) = (res, (rd, P, lw1))"
      by (cases "completeRead L (ec, n, data) (?rd, ?P, lw)") auto
    with assms(3) obtain d where d: "res = Ret d" by (cases res) (simp_all add: TcpConnection_onRead_def)
    with r have "d = NoCall" by (intro await_prefix_NoCall [OF 1 ok]) simp
    with r d assms(3) have "tc_pendingWrites c' = tc_pendingWrites c" by (auto simp: TcpConnection_onRead_def)
    with 1 show thesis by (rule prefix)
  next
    case 2
    from await_message_Call [OF inv(1) 2 assms(2) ok, of lw] obtain rd where
      "completeRead L (ec, n, data) (?rd, ?P, lw) = (Ret (Call TcpConnection_handleRead_cb data False), (rd, ?P, lw))" ..
    with assms(3) obtain lw1 where h: "TcpConnection_handleRead L data (c\<lparr>tc_reader := rd\<rparr>, lw) = (Ret (), (c', lw1))"
      by (auto simp: TcpConnection_onRead_def andThen_eq_Ret split: prod.splits)
    have "Protocol_inv (tc_protocol (c\<lparr>tc_reader := rd\<rparr>))" "send_inv (c\<lparr>tc_reader := rd\<rparr>)"
      using inv(2,3) by (simp_all add: send_inv_def)
    then show thesis by (rule handleRead_Ret [OF _ _ h]) (simp_all add: request [OF 2])
  qed
qed

end

subsection \<open>Lemmas: an echo request\<close>

fun conn_reads :: "extlib \<Rightarrow> read_event list \<Rightarrow> conn_state \<Rightarrow> (conn_state, unit) run" where
  "conn_reads L [] st = (Ret (), st)"
| "conn_reads L (e # es) st = andThen (TcpConnection_onRead L e st) (\<lambda>_. conn_reads L es)"

text \<open>
  A message as the programs make them: a set type, valid text that fits the buffer, and no unknown
  fields. The server can answer an echo request of this form.
\<close>

definition chat_fits :: "(string \<Rightarrow> bool) \<Rightarrow> ChatMessage \<Rightarrow> bool" where
  "chat_fits utf8 m \<longleftrightarrow> cm_type m \<noteq> 0 \<and> utf8 (cm_text m) \<and>
     length (cm_text m) + 23 \<le> MAX_READ_BUFFER_SIZE_BYTES \<and> cm_unknown m = []"

definition echo_request :: "(string \<Rightarrow> bool) \<Rightarrow> ChatMessage \<Rightarrow> bool" where
  "echo_request utf8 m \<longleftrightarrow> cm_type m = ChatMessage_ECHO_REQUEST \<and> chat_fits utf8 m"

definition await_frame :: "TcpConnection \<Rightarrow> bool" where
  "await_frame c \<longleftrightarrow> conn_running c \<and> await_prefix (tc_protocol c) (tc_reader c)"

context protobuf
begin

text \<open>A frame reaches the callback, whatever the callback then does.\<close>

lemma conn_reads_frame:
  assumes "await_frame c" and "framable body" and "length body \<le> MAX_READ_BUFFER_SIZE_BYTES"
  shows "conn_reads L (frame_events L body) (c, lw) =
    andThen (TcpConnection_handleRead L body (c\<lparr>tc_protocol := noted body (tc_protocol c)\<rparr>, lw)) (\<lambda>_ st. (Ret (), st))"
proof -
  let ?rd = "tc_reader c" and ?P = "tc_protocol c"
  let ?c1 = "c\<lparr>tc_reader := expecting body ?rd, tc_protocol := noted body ?P\<rparr>"
  have inv: "Protocol_inv ?P" "maxBufferSize ?rd = MAX_READ_BUFFER_SIZE_BYTES" and await: "await_prefix ?P ?rd"
    and m: "proto_mode TcpConnection_handleRead_cb ?rd ?P"
    using assms(1) by (simp_all add: await_frame_def conn_running_def conn_inv_def proto_inv_def)
  have s1: "TcpConnection_onRead L (no_error, FRAME_PREFIX_SIZE, take FRAME_PREFIX_SIZE (frame L body)) (c, lw) =
      (Ret (), (?c1, lw))"
    using frame_prefix_step [OF m await inv(1) assms(2), of no_error lw] assms(3) inv(2)
    by (simp add: TcpConnection_onRead_def)
  have "completeRead L (no_error, length body, body) (expecting body ?rd, noted body ?P, lw) =
      (Ret (Call TcpConnection_handleRead_cb body False), (?rd, noted body ?P, lw))"
    using m await assms(3) inv(2) by (intro frame_message_step) simp_all
  then have s2: "TcpConnection_onRead L (no_error, length body, body) (?c1, lw) =
      andThen (TcpConnection_handleRead L body (c\<lparr>tc_protocol := noted body ?P\<rparr>, lw)) (\<lambda>_ st. (Ret (), st))"
    by (simp add: TcpConnection_onRead_def split_def)
  show ?thesis
    by (cases "TcpConnection_handleRead L body (c\<lparr>tc_protocol := noted body ?P\<rparr>, lw)" rule: prod.exhaust,
        case_tac x1) (simp_all add: frame_events_def s1 s2)
qed

lemma fitting_body:
  assumes "chat_fits utf8 m"
  shows "pb_SerializeToString L (MChatMessage m) = Some (chat_body L m)" and "framable (chat_body L m)"
    and "length (chat_body L m) \<le> MAX_READ_BUFFER_SIZE_BYTES"
proof -
  have r: "length (cm_text m) + length (cm_unknown m) + 23 < 2 ^ 31" "cm_type m \<noteq> 0"
    using assms by (simp_all add: chat_fits_def MAX_READ_BUFFER_SIZE_BYTES_def)
  show "pb_SerializeToString L (MChatMessage m) = Some (chat_body L m)" "framable (chat_body L m)"
    "length (chat_body L m) \<le> MAX_READ_BUFFER_SIZE_BYTES"
    using chat_body_framable [OF r] assms by (simp_all add: chat_fits_def)
qed

text \<open>A chat message arrives: after its frame the connection hands the message to the echo handler.\<close>

lemma conn_reads_chat:
  assumes "await_frame c" and "chat_fits utf8 m"
  shows "conn_reads L (frame_events L (chat_body L m)) (c, lw) =
    handleServer L tc_protocol TcpConnection_set_protocol TcpConnection_send (MChatMessage m)
      (c\<lparr>tc_protocol := noted (chat_body L m) (tc_protocol c)\<rparr>, lw)"
proof -
  note b = fitting_body [OF assms(2)]
  let ?c = "c\<lparr>tc_protocol := noted (chat_body L m) (tc_protocol c)\<rparr>"
  have "deserialize L (chat_body L m) (int (length (chat_body L m))) (tc_protocol ?c) =
      (Ret (MChatMessage m), tc_protocol ?c)"
    using assms(2) by (intro deserialize_body [OF _ b(1)]) (simp_all add: chat_fits_def)
  then have h: "TcpConnection_handleRead L (chat_body L m) (?c, lw) =
      handleServer L tc_protocol TcpConnection_set_protocol TcpConnection_send (MChatMessage m) (?c, lw)"
    by (simp add: TcpConnection_handleRead_def)
  show ?thesis unfolding conn_reads_frame [OF assms(1) b(2,3)] h andThen_unit ..
qed

end

lemma await_frame_send:
  assumes "await_frame c"
  shows "await_frame (fst (TcpConnection_send m (c, lw)))"
  using assms conn_running_send [of c m lw] by (simp add: await_frame_def)

lemma await_frame_protocol:
  assumes "await_frame c" and "PREFIX_SIZE P = PREFIX_SIZE (tc_protocol c)"
  shows "await_frame (c\<lparr>tc_protocol := P\<rparr>)"
  using assms conn_running_protocol [of c P] by (auto simp: await_frame_def await_prefix_def)


lemma echo_request_answer:
  "echo_request utf8 m \<Longrightarrow> cm_type m = ChatMessage_ECHO_REQUEST \<and> length (cm_text m) + length (cm_unknown m) + 23 < 2 ^ 31 \<and> chat_fits utf8 m"
  by (simp add: echo_request_def chat_fits_def MAX_READ_BUFFER_SIZE_BYTES_def)

text \<open>The sender's protocol object after an answer has been framed by it.\<close>

definition answering :: "extlib \<Rightarrow> ChatMessage \<Rightarrow> TcpConnection \<Rightarrow> TcpConnection" where
  "answering L m c = c\<lparr>tc_protocol := (noted (chat_body L m) (tc_protocol c))
     \<lparr>serFramePrefixCache := ECHO_prefix (chat_body L (echo_response m))\<rparr>\<rparr>"

lemma conn_reads_request:
  assumes "protobuf L utf8" and "await_frame c" and "echo_request utf8 m"
  shows "conn_reads L (frame_events L (chat_body L m)) (c, lw) =
      (Ret (), TcpConnection_send (frame L (chat_body L (echo_response m)))
         (answering L m c, log_line ''DBG: handle Echo receive server'' lw))"
    and "await_frame (answering L m c)"
proof -
  let ?c = "c\<lparr>tc_protocol := noted (chat_body L m) (tc_protocol c)\<rparr>"
  have inv: "Protocol_inv (tc_protocol ?c)"
    using assms(2) by (simp add: await_frame_def conn_running_def conn_inv_def Protocol_inv_def noted_def)
  have m: "cm_type m = ChatMessage_ECHO_REQUEST" "length (cm_text m) + length (cm_unknown m) + 23 < 2 ^ 31" "chat_fits utf8 m"
    using echo_request_answer [OF assms(3)] by simp_all
  show "conn_reads L (frame_events L (chat_body L m)) (c, lw) =
      (Ret (), TcpConnection_send (frame L (chat_body L (echo_response m)))
         (answering L m c, log_line ''DBG: handle Echo receive server'' lw))"
    using protobuf.conn_reads_chat [OF assms(1,2) m(3)]
      protobuf.handleServer_request [where proto_of = tc_protocol and c = ?c, OF assms(1) m(1,2) inv,
        of TcpConnection_set_protocol TcpConnection_send lw]
    by (simp add: answering_def TcpConnection_set_protocol_def)
  show "await_frame (answering L m c)"
    unfolding answering_def using assms(2) by (intro await_frame_protocol) (simp_all add: noted_def)
qed

subsection \<open>A started connection\<close>

text \<open>The connection after its welcome message has been written, waiting for a frame.\<close>

definition idle_connection :: "size_t \<Rightarrow> TcpConnection" where
  "idle_connection i = \<lparr>tc_id = i,
     tc_reader = \<lparr>maxBufferSize = MAX_READ_BUFFER_SIZE_BYTES, callback = Some TcpConnection_handleRead_cb,
       protocolSet = True, readBuffer = [], readInProgress = True,
       pendingReads = [(AsyncRead FRAME_PREFIX_SIZE, HandleReadProtoFramePrefixFinished True)]\<rparr>,
     tc_handler = EchoClientHandler, tc_protocol = wire_protocol, tc_sendMsg = [], tc_writeInProgress = False,
     tc_pendingWrites = []\<rparr>"

lemma idle_connection_ok: "await_frame (idle_connection i)" "conn_idle (idle_connection i)"
  by (simp_all add: idle_connection_def await_frame_def conn_running_def conn_inv_def send_inv_def conn_idle_def
      Protocol_inv_def proto_inv_def proto_mode_def await_prefix_def MAX_READ_BUFFER_SIZE_BYTES_def
      FRAME_PREFIX_SIZE_def)

definition sample_request :: ChatMessage where
  "sample_request = \<lparr>cm_id = 7, cm_text = ''hello'', cm_type = ChatMessage_ECHO_REQUEST, cm_unknown = []\<rparr>"

lemma sample_request_ok: "echo_request valid_utf8 sample_request"
  using wire.utf8_ascii [of "cm_text sample_request"]
  by (simp add: echo_request_def chat_fits_def sample_request_def MAX_READ_BUFFER_SIZE_BYTES_def)

subsection \<open>Messages of other types\<close>

text \<open>
  A well-formed frame whose message is not an echo request, for instance an echo response, takes
  the server down: the assertion on the message type in \<^verbatim>\<open>EchoHandler::handleServer\<close> fails.
\<close>

lemma other_message_aborts:
  assumes "protobuf L utf8" and "await_frame c" and "chat_fits utf8 m" and "cm_type m \<noteq> ChatMessage_ECHO_REQUEST"
  shows "fst (conn_reads L (frame_events L (chat_body L m)) (c, lw)) =
    AssertFail ''echoMessage->type() == proto::ChatMessage::ECHO_REQUEST''"
  using protobuf.conn_reads_chat [OF assms(1-3)] assms(4) by (simp add: handleServer_def Let_def)

end
