(* ===== verification/Connection_Manager.thy ===== *)
theory Connection_Manager
  imports TcpConnection "HOL-Library.AList"
begin

text \<open>
  The owner of the connections, \<^verbatim>\<open>conn::ConnectionManager\<close>
  (\<^verbatim>\<open>server/include/acs/conn/ConnectionManager.hpp\<close>), as the observer of
  \<^verbatim>\<open>ConnectionStateListener\<close>, and the operations of a connection that report to it. A connection
  is an object with an address: the list pairs every connection with its reference, and a
  reference that is no longer in the list is dangling. Asio still calls the handlers of a destroyed
  connection's operations; \<open>sv_orphans\<close> are the references those handlers have captured.
\<close>

subsection \<open>The state of the server process\<close>

type_synonym ref = nat

record server =
  sv_log :: logw
  sv_connections :: "(ref \<times> TcpConnection) list"
  sv_nextRef :: ref
  sv_nextId :: size_t
  sv_accepting :: "ref list"
  sv_orphans :: "ref list"

text \<open>A member function called through a reference to a connection.\<close>

definition on_conn :: "ref \<Rightarrow> (conn_state \<Rightarrow> (conn_state, 'a) run) \<Rightarrow> server \<Rightarrow> (server, 'a) run" where
  "on_conn r f s =
     (case map_of (sv_connections s) r of
        None \<Rightarrow> (Undefined ''use of a destroyed connection'', s)
      | Some c \<Rightarrow>
          (case f (c, sv_log s) of
             (res, (c', lw')) \<Rightarrow>
               (res, s\<lparr>sv_connections := AList.update r c' (sv_connections s), sv_log := lw'\<rparr>)))"

definition generateConnId :: "server \<Rightarrow> size_t \<times> server" where
  "generateConnId s = (sv_nextId s, s\<lparr>sv_nextId := sv_nextId s + 1\<rparr>)"

subsection \<open>The manager\<close>

definition newConnection :: "extlib \<Rightarrow> client_handler \<Rightarrow> server \<Rightarrow> (server, ref) run" where
  "newConnection L handlerType s =
     (case generateConnId s of
        (ident, s1) \<Rightarrow>
          andThen (TcpConnection_ctor L ident handlerType, s1) (\<lambda>c s2.
            (Ret (sv_nextRef s2),
             s2\<lparr>sv_connections := sv_connections s2 @ [(sv_nextRef s2, c)], sv_nextRef := Suc (sv_nextRef s2)\<rparr>)))"

definition has_pending :: "TcpConnection \<Rightarrow> bool" where
  "has_pending c = (pendingReads (tc_reader c) \<noteq> [] \<or> tc_pendingWrites c \<noteq> [])"

text \<open>\<^verbatim>\<open>_connections.remove(conn)\<close> destroys every element that is equal to \<^verbatim>\<open>conn\<close>.\<close>

definition purgeConnection :: "TcpConnection \<Rightarrow> server \<Rightarrow> server" where
  "purgeConnection conn s =
     s\<lparr>sv_connections := filter (\<lambda>(r, c). \<not> same_connection c conn) (sv_connections s),
       sv_orphans := sv_orphans s @
         map fst (filter (\<lambda>(r, c). same_connection c conn \<and> has_pending c) (sv_connections s))\<rparr>"

definition connectionClosed :: "ref \<Rightarrow> server \<Rightarrow> (server, unit) run" where
  "connectionClosed r s =
     (case map_of (sv_connections s) r of
        None \<Rightarrow> (Undefined ''use of a destroyed connection'', s)
      | Some conn \<Rightarrow>
          (Ret (), purgeConnection conn
             (s\<lparr>sv_log := log_line (''Connection closed: '' @ show_connection conn) (sv_log s)\<rparr>)))"

definition printOpenConnections :: "stream \<Rightarrow> server \<Rightarrow> server" where
  "printOpenConnections out s =
     s\<lparr>sv_log := endl out (put out
         (''Open connections:'' @ concat (map (\<lambda>(r, c). ''\<newline>  '' @ show_connection c) (sv_connections s)))
         (sv_log s))\<rparr>"

subsection \<open>Closing a connection\<close>

definition EchoClientHandler_handleServerClose :: "conn_state \<Rightarrow> (conn_state, unit) run" where
  "EchoClientHandler_handleServerClose = (\<lambda>(c, lw).
     (Ret (), (c, log_line (''Connection '' @ show_nat (unat (TcpConnection_getId c)) @ '' close performed by server'') lw)))"

definition TestClientHandler_handleServerClose :: "conn_state \<Rightarrow> (conn_state, unit) run" where
  "TestClientHandler_handleServerClose = (\<lambda>(c, lw).
     (Ret (), (c, log_line (''Connection '' @ show_nat (unat (TcpConnection_getId c)) @ '' close performed by server'') lw)))"

text \<open>The virtual call \<^verbatim>\<open>_handler->handleServerClose()\<close>.\<close>

fun handleServerClose :: "client_handler \<Rightarrow> conn_state \<Rightarrow> (conn_state, unit) run" where
  "handleServerClose EchoClientHandler st = EchoClientHandler_handleServerClose st"
| "handleServerClose TestClientHandler st = TestClientHandler_handleServerClose st"

definition TcpConnection_close :: "ref \<Rightarrow> server \<Rightarrow> (server, unit) run" where
  "TcpConnection_close r s =
     andThen (on_conn r (\<lambda>st. handleServerClose (tc_handler (fst st)) st) s) (\<lambda>_. connectionClosed r)"

definition closeConnection :: "ref \<Rightarrow> server \<Rightarrow> (server, unit) run" where
  "closeConnection r s = TcpConnection_close r s"

subsection \<open>Completed writes\<close>

definition EchoClientHandler_handleSendComplete :: "ref \<Rightarrow> server \<Rightarrow> (server, unit) run" where
  "EchoClientHandler_handleSendComplete r s = (Ret (), s)"

definition TestClientHandler_handleSendComplete :: "ref \<Rightarrow> server \<Rightarrow> (server, unit) run" where
  "TestClientHandler_handleSendComplete r s = TcpConnection_close r s"

text \<open>The virtual call \<^verbatim>\<open>_handler->handleSendComplete()\<close>.\<close>

fun handleSendComplete :: "client_handler \<Rightarrow> ref \<Rightarrow> server \<Rightarrow> (server, unit) run" where
  "handleSendComplete EchoClientHandler r s = EchoClientHandler_handleSendComplete r s"
| "handleSendComplete TestClientHandler r s = TestClientHandler_handleSendComplete r s"

definition TcpConnection_handleWrite :: "error_code \<Rightarrow> nat \<Rightarrow> ref \<Rightarrow> server \<Rightarrow> (server, unit) run" where
  "TcpConnection_handleWrite error bytesSend r s =
     andThen
       (on_conn r (\<lambda>(c, lw).
          (Ret (tc_handler c),
           (c\<lparr>tc_writeInProgress := False\<rparr>,
            if failed error
            then logError_line (''Connection::_handleWrite err: '' @ show_error_code error) lw
            else log_line ''handleWrite'' lw))) s)
       (\<lambda>handler. handleSendComplete handler r)"

text \<open>Asio completes the outstanding write of a connection.\<close>

definition TcpConnection_onWrite :: "error_code \<Rightarrow> nat \<Rightarrow> ref \<Rightarrow> server \<Rightarrow> (server, unit) run" where
  "TcpConnection_onWrite ec n r s =
     andThen
       (on_conn r (\<lambda>(c, lw).
          case tc_pendingWrites c of
            [] \<Rightarrow> (Ret False, (c, lw))
          | op # ops \<Rightarrow>
              (if \<not> wo_intact op
               then (Undefined ''the buffer of async_write was modified'', (c, lw))
               else (Ret True, (c\<lparr>tc_pendingWrites := ops\<rparr>, lw)))) s)
       (\<lambda>completed s'. if completed then TcpConnection_handleWrite ec n r s' else (Ret (), s'))"

subsection \<open>The collection of connections\<close>

text \<open>
  What the rest of the server relies on: a new connection gets a reference and (until the
  counter wraps) an identity nobody has, and closing a connection removes it and nothing else.
\<close>

definition ids :: "server \<Rightarrow> size_t list" where
  "ids s = map (\<lambda>(r, c). tc_id c) (sv_connections s)"

definition refs :: "server \<Rightarrow> ref list" where
  "refs s = map fst (sv_connections s)"

definition manager_inv :: "server \<Rightarrow> bool" where
  "manager_inv s \<longleftrightarrow>
     distinct (refs s) \<and> (\<forall>r \<in> set (refs s). r < sv_nextRef s) \<and> distinct (ids s) \<and>
     (\<forall>i \<in> set (ids s). unat i < sv_nextRef s) \<and> unat (sv_nextId s) = sv_nextRef s"

lemmas handler_defs [simp] =
  EchoClientHandler_handleServerClose_def TestClientHandler_handleServerClose_def
  EchoClientHandler_handleSendComplete_def TestClientHandler_handleSendComplete_def

lemma map_of_refs: "map_of (sv_connections s) r = None \<longleftrightarrow> r \<notin> set (refs s)"
  by (simp add: refs_def map_of_eq_None_iff)

lemma on_conn_refs [simp]: "refs (snd (on_conn r f s)) = refs s"
proof (cases "map_of (sv_connections s) r")
  case (Some c)
  then have "r \<in> fst ` set (sv_connections s)" by (metis map_of_SomeD fst_conv image_eqI)
  with Some show ?thesis
    by (auto simp: on_conn_def refs_def update_keys split: prod.splits)
qed (simp add: on_conn_def)

lemma map_update_same:
  "map_of xs r = Some c \<Longrightarrow> f c' = f c \<Longrightarrow>
     map (\<lambda>(r, c). f c) (AList.update r c' xs) = map (\<lambda>(r, c). f c) xs"
  by (induction xs) auto

lemma set_update_subset: "set (AList.update r c xs) \<subseteq> insert (r, c) (set xs)"
  by (induction xs) auto

lemma update_keys_mem: "map_of xs r = Some c \<Longrightarrow> map fst (AList.update r c' xs) = map fst xs"
  by (induction xs) auto

lemma on_conn_Some:
  assumes "map_of (sv_connections s) r = Some c" and "f (c, sv_log s) = (res, (c', lw'))"
  shows "on_conn r f s = (res, s\<lparr>sv_connections := AList.update r c' (sv_connections s), sv_log := lw'\<rparr>)"
  using assms by (simp add: on_conn_def)

lemma ids_update:
  "map_of (sv_connections s) r = Some c \<Longrightarrow> tc_id c' = tc_id c \<Longrightarrow>
     ids (s\<lparr>sv_connections := AList.update r c' (sv_connections s), sv_log := lw'\<rparr>) = ids s"
  by (simp add: ids_def map_update_same [where f = tc_id])

lemma manager_inv_update [inv_intros]:
  assumes "manager_inv s" and "map_of (sv_connections s) r = Some c" and "tc_id c' = tc_id c"
  shows "manager_inv (s\<lparr>sv_connections := AList.update r c' (sv_connections s), sv_log := lw'\<rparr>)"
  using assms ids_update [OF assms(2,3), of lw']
  by (simp add: manager_inv_def refs_def update_keys_mem)

text \<open>With distinct identities, the elements equal to a connection are that connection.\<close>

lemma same_connection_unique:
  assumes "distinct (map (\<lambda>(r, c). tc_id c) xs)" and "(r, c) \<in> set xs" and "(r', c') \<in> set xs"
    and "same_connection c' c"
  shows "r' = r \<and> c' = c"
proof -
  from assms(1) have "inj_on (\<lambda>(r, c). tc_id c) (set xs)" by (simp add: distinct_map)
  from inj_onD [OF this, of "(r', c')" "(r, c)"] assms(2-4) show ?thesis
    by (simp add: same_connection_def)
qed

lemma purge_filter:
  assumes "manager_inv s" and "map_of (sv_connections s) r = Some c"
  shows "filter (\<lambda>(r', c'). \<not> same_connection c' c) (sv_connections s) =
    filter (\<lambda>(r', c'). r' \<noteq> r) (sv_connections s)"
proof (rule filter_cong [OF refl])
  fix p
  assume p: "p \<in> set (sv_connections s)"
  obtain r' c' where p': "p = (r', c')" by fastforce
  have c: "(r, c) \<in> set (sv_connections s)" using assms(2) by (rule map_of_SomeD)
  have d: "distinct (map (\<lambda>(r, c). tc_id c) (sv_connections s))" and dr: "distinct (map fst (sv_connections s))"
    using assms(1) by (simp_all add: manager_inv_def ids_def refs_def)
  have "r' = r \<Longrightarrow> c' = c" using eq_key_imp_eq_value [OF dr, of r c' c] p p' c by simp
  moreover have "r' = r" if "same_connection c' c"
    using same_connection_unique [OF d c _ that] p p' by simp
  ultimately have "same_connection c' c \<longleftrightarrow> r' = r" by (auto simp: same_connection_def)
  then show "(case p of (r', c') \<Rightarrow> \<not> same_connection c' c) = (case p of (r', c') \<Rightarrow> r' \<noteq> r)"
    by (simp add: p')
qed

lemma manager_inv_filter:
  assumes "manager_inv s" and "sv_connections s' = filter p (sv_connections s)"
    and "sv_nextRef s' = sv_nextRef s" and "sv_nextId s' = sv_nextId s"
  shows "manager_inv s'"
  using assms by (auto simp: manager_inv_def refs_def ids_def distinct_map_filter)

lemma refs_filter: "map fst (filter (\<lambda>(r', c'). r' \<noteq> r) xs) = filter (\<lambda>r'. r' \<noteq> r) (map fst xs)"
  by (induction xs) auto

lemma connectionClosed_eq:
  assumes "manager_inv s" and "r \<in> set (refs s)"
  shows "\<exists>s'. connectionClosed r s = (Ret (), s') \<and> manager_inv s' \<and>
    sv_connections s' = filter (\<lambda>(r', c'). r' \<noteq> r) (sv_connections s) \<and>
    refs s' = filter (\<lambda>r'. r' \<noteq> r) (refs s)"
proof -
  from assms(2) obtain c where c: "map_of (sv_connections s) r = Some c" using map_of_refs [of s r] by auto
  obtain s' where s': "connectionClosed r s = (Ret (), s')" by (simp add: connectionClosed_def c)
  then have eqs: "sv_connections s' = filter (\<lambda>(r', c'). r' \<noteq> r) (sv_connections s)"
    "sv_nextRef s' = sv_nextRef s" "sv_nextId s' = sv_nextId s"
    using purge_filter [OF assms(1) c] by (auto simp: connectionClosed_def c purgeConnection_def)
  then have "refs s' = filter (\<lambda>r'. r' \<noteq> r) (refs s)" by (simp add: refs_def refs_filter)
  with s' eqs manager_inv_filter [OF assms(1) eqs] show ?thesis by blast
qed

subsection \<open>The listener interface\<close>

locale ConnectionStateListener =
  fixes closed :: "ref \<Rightarrow> 'w \<Rightarrow> ('w, unit) run"
    and members :: "'w \<Rightarrow> ref set"
    and inv :: "'w \<Rightarrow> bool"
  assumes closed_member: "inv w \<Longrightarrow> r \<in> members w \<Longrightarrow>
        \<exists>w'. closed r w = (Ret (), w') \<and> inv w' \<and> members w' = members w - {r}"
    and closed_dangling: "r \<notin> members w \<Longrightarrow> \<exists>m. fst (closed r w) = Undefined m"
begin

fun close_all :: "ref list \<Rightarrow> 'w \<Rightarrow> ('w, unit) run" where
  "close_all [] w = (Ret (), w)"
| "close_all (r # rs) w = andThen (closed r w) (\<lambda>_. close_all rs)"

lemma close_all_members:
  "inv w \<Longrightarrow> distinct rs \<Longrightarrow> set rs \<subseteq> members w \<Longrightarrow>
     \<exists>w'. close_all rs w = (Ret (), w') \<and> inv w' \<and> members w' = members w - set rs"
proof (induction rs arbitrary: w)
  case (Cons r rs)
  then obtain w' where w': "closed r w = (Ret (), w')" "inv w'" "members w' = members w - {r}"
    using closed_member [of w r] by auto
  from Cons.prems w'(3) have "set rs \<subseteq> members w'" by auto
  with Cons.IH [OF w'(2)] Cons.prems w' show ?case by auto
qed simp

lemma close_twice:
  assumes "inv w" and "r \<in> members w"
  shows "\<exists>m. fst (close_all [r, r] w) = Undefined m"
proof -
  from closed_member [OF assms] obtain w' where w': "closed r w = (Ret (), w')" "members w' = members w - {r}"
    by blast
  obtain m w'' where "closed r w' = (Undefined m, w'')" using closed_dangling [of r w'] w'(2)
    by (metis Diff_iff insertI1 prod.collapse)
  with w'(1) show ?thesis by simp
qed

end

interpretation manager: ConnectionStateListener connectionClosed "\<lambda>s. set (refs s)" manager_inv
proof unfold_locales
  fix s r
  assume "manager_inv s" "r \<in> set (refs s)"
  from connectionClosed_eq [OF this] obtain s' where "connectionClosed r s = (Ret (), s')" "manager_inv s'"
    "refs s' = filter (\<lambda>r'. r' \<noteq> r) (refs s)" by blast
  then show "\<exists>s'. connectionClosed r s = (Ret (), s') \<and> manager_inv s' \<and> set (refs s') = set (refs s) - {r}"
    by auto
next
  fix s r
  assume "r \<notin> set (refs s)"
  then show "\<exists>m. fst (connectionClosed r s) = Undefined m"
    using map_of_refs [of s r] by (simp add: connectionClosed_def)
qed

subsection \<open>New connections\<close>

lemma manager_inv_new [inv_intros]:
  assumes "manager_inv s" and "Suc (sv_nextRef s) < 2 ^ 64" and "tc_id c = sv_nextId s"
    and "sv_connections s' = sv_connections s @ [(sv_nextRef s, c)]"
    and "sv_nextRef s' = Suc (sv_nextRef s)" and "sv_nextId s' = sv_nextId s + 1"
  shows "manager_inv s'"
proof -
  have n: "unat (sv_nextId s) = sv_nextRef s" using assms(1) by (simp add: manager_inv_def)
  then have "sv_nextId s = of_nat (sv_nextRef s)" by (simp flip: n)
  then have "sv_nextId s + 1 = of_nat (Suc (sv_nextRef s))" by simp
  then have "unat (sv_nextId s + 1) = Suc (sv_nextRef s)" using assms(2) by (simp only: unat_of_nat_size)
  with assms n show ?thesis
    by (fastforce simp: manager_inv_def refs_def ids_def)
qed

context protobuf
begin

lemma newConnection_eq:
  obtains c where "newConnection L k s =
      (Ret (sv_nextRef s), s\<lparr>sv_nextId := sv_nextId s + 1, sv_connections := sv_connections s @ [(sv_nextRef s, c)],
         sv_nextRef := Suc (sv_nextRef s)\<rparr>)"
    and "conn_fresh c" and "tc_id c = sv_nextId s" and "tc_handler c = k"
proof -
  from TcpConnection_ctor_eq [of "sv_nextId s" k] obtain c
    where "TcpConnection_ctor L (sv_nextId s) k = Ret c" "conn_fresh c" "tc_id c = sv_nextId s" "tc_handler c = k"
    by blast
  then show thesis by (intro that [of c]) (simp_all add: newConnection_def generateConnId_def)
qed

end

subsection \<open>Closing a connection: lemmas\<close>

lemma TcpConnection_close_eq:
  assumes "map_of (sv_connections s) r = Some c"
  shows "TcpConnection_close r s = connectionClosed r (s\<lparr>sv_log :=
    log_line (''Connection '' @ show_nat (unat (tc_id c)) @ '' close performed by server'') (sv_log s)\<rparr>)"
  using assms by (cases "tc_handler c") (simp_all add: TcpConnection_close_def on_conn_def update_triv)

lemma manager_inv_log [simp]: "manager_inv (s\<lparr>sv_log := lw\<rparr>) = manager_inv s" "refs (s\<lparr>sv_log := lw\<rparr>) = refs s"
  by (simp_all add: manager_inv_def refs_def ids_def)

lemma TcpConnection_close_removes:
  assumes "manager_inv s" and c: "map_of (sv_connections s) r = Some c"
  shows "\<exists>s'. TcpConnection_close r s = (Ret (), s') \<and> manager_inv s' \<and>
    sv_connections s' = filter (\<lambda>(r', c'). r' \<noteq> r) (sv_connections s) \<and> r \<notin> set (refs s')"
proof -
  let ?s = "s\<lparr>sv_log := log_line (''Connection '' @ show_nat (unat (tc_id c)) @ '' close performed by server'') (sv_log s)\<rparr>"
  have "r \<in> set (refs ?s)" using c map_of_refs [of s r] by auto
  with connectionClosed_eq [of ?s r] assms(1) show ?thesis by (auto simp: TcpConnection_close_eq [OF c])
qed

text \<open>The handlers of a destroyed connection's outstanding operations still have its address.\<close>

lemma close_orphans:
  assumes c: "map_of (sv_connections s) r = Some c" and "has_pending c" and "TcpConnection_close r s = (Ret (), s')"
  shows "r \<in> set (sv_orphans s')"
proof -
  have "(r, c) \<in> set (filter (\<lambda>(r', c'). same_connection c' c \<and> has_pending c') (sv_connections s))"
    using map_of_SomeD [OF c] assms(2) by (simp add: same_connection_def)
  then have "r \<in> fst ` set (filter (\<lambda>(r', c'). same_connection c' c \<and> has_pending c') (sv_connections s))"
    by (metis fst_conv image_eqI)
  moreover have "sv_orphans s' = sv_orphans s @
      map fst (filter (\<lambda>(r', c'). same_connection c' c \<and> has_pending c') (sv_connections s))"
    using assms(3) by (auto simp: TcpConnection_close_eq [OF c] connectionClosed_def c purgeConnection_def)
  ultimately show ?thesis by (simp only: set_append set_map Un_iff simp_thms)
qed

text \<open>A sample population: two started connections.\<close>

definition sample_server :: server where
  "sample_server = \<lparr>sv_log = registerInstance std_logger initial_logw,
     sv_connections = [(0, idle_connection 0), (1, idle_connection 1)], sv_nextRef = 2, sv_nextId = 2,
     sv_accepting = [], sv_orphans = []\<rparr>"

lemma sample_manager_inv: "manager_inv sample_server"
  by (simp add: sample_server_def manager_inv_def refs_def ids_def idle_connection_def)

subsection \<open>Properties\<close>

text \<open>
  C26. Closing a connection removes it from the manager and nothing else: the other connections stay
  as they are and in order, the identities stay unique, both log lines name the connection, and the
  reference is dangling from then on, so closing it a second time is a use of a destroyed object.
\<close>

theorem close_removes_only_that_connection:
  assumes "manager_inv s" and "map_of (sv_connections s) r = Some c"
  shows "\<exists>s'. closeConnection r s = (Ret (), s') \<and> manager_inv s' \<and>
    sv_connections s' = filter (\<lambda>(r', c'). r' \<noteq> r) (sv_connections s) \<and>
    sv_log s' = log_line (''Connection closed: '' @ show_connection c)
      (log_line (''Connection '' @ show_nat (unat (tc_id c)) @ '' close performed by server'') (sv_log s)) \<and>
    fst (closeConnection r s') = Undefined ''use of a destroyed connection''"
proof -
  from TcpConnection_close_removes [OF assms] obtain s' where s': "TcpConnection_close r s = (Ret (), s')"
    "manager_inv s'" "sv_connections s' = filter (\<lambda>(r', c'). r' \<noteq> r) (sv_connections s)" "r \<notin> set (refs s')" by blast
  have "map_of (sv_connections s') r = None" using s'(4) map_of_refs [of s' r] by simp
  then have "fst (closeConnection r s') = Undefined ''use of a destroyed connection''"
    by (simp add: closeConnection_def TcpConnection_close_def on_conn_def)
  moreover have "sv_log s' = log_line (''Connection closed: '' @ show_connection c)
      (log_line (''Connection '' @ show_nat (unat (tc_id c)) @ '' close performed by server'') (sv_log s))"
    using s'(1) assms(2) by (auto simp: TcpConnection_close_eq [OF assms(2)] connectionClosed_def purgeConnection_def)
  ultimately show ?thesis using s' by (auto simp: closeConnection_def)
qed

theorem close_removes_only_that_connection_witness:
  "\<exists>s'. closeConnection 0 sample_server = (Ret (), s') \<and> manager_inv s' \<and> sv_connections s' = [(1, idle_connection 1)] \<and>
    fst (closeConnection 0 s') = Undefined ''use of a destroyed connection''"
proof -
  have "map_of (sv_connections sample_server) 0 = Some (idle_connection 0)" by (simp add: sample_server_def)
  from close_removes_only_that_connection [OF sample_manager_inv this] show ?thesis
    by (auto simp: sample_server_def)
qed

text \<open>
  C27. Every new connection gets a fresh reference and an identity that no open connection has, so
  long as fewer than $2^{64}$ connections have been made; it is appended to the collection, which
  is otherwise unchanged.
\<close>

theorem new_connection_is_unique:
  assumes "protobuf L utf8" and "manager_inv s" and "Suc (sv_nextRef s) < 2 ^ 64"
  shows "\<exists>r c s'. newConnection L k s = (Ret r, s') \<and> manager_inv s' \<and>
    sv_connections s' = sv_connections s @ [(r, c)] \<and> r \<notin> set (refs s) \<and> tc_id c \<notin> set (ids s) \<and>
    tc_handler c = k \<and> tc_id c = sv_nextId s"
proof -
  obtain c where new: "newConnection L k s = (Ret (sv_nextRef s), s\<lparr>sv_nextId := sv_nextId s + 1,
        sv_connections := sv_connections s @ [(sv_nextRef s, c)], sv_nextRef := Suc (sv_nextRef s)\<rparr>)"
    and c: "tc_id c = sv_nextId s" "tc_handler c = k"
    using protobuf.newConnection_eq [OF assms(1), of k s] by metis
  have "manager_inv (s\<lparr>sv_nextId := sv_nextId s + 1,
        sv_connections := sv_connections s @ [(sv_nextRef s, c)], sv_nextRef := Suc (sv_nextRef s)\<rparr>)"
    by (rule manager_inv_new [OF assms(2,3) c(1)]) simp_all
  moreover have "sv_nextRef s \<notin> set (refs s)" "tc_id c \<notin> set (ids s)"
    using assms(2) c(1) by (auto simp: manager_inv_def)
  ultimately show ?thesis using new c by simp
qed

theorem new_connection_is_unique_witness:
  "\<exists>r c s'. newConnection wire_lib TestClientHandler sample_server = (Ret r, s') \<and> manager_inv s' \<and>
    sv_connections s' = sv_connections sample_server @ [(r, c)] \<and> r \<notin> set (refs sample_server) \<and>
    tc_id c \<notin> set (ids sample_server) \<and> tc_handler c = TestClientHandler \<and> tc_id c = sv_nextId sample_server"
  by (rule new_connection_is_unique [OF wire.protobuf_axioms sample_manager_inv]) (simp add: sample_server_def)

end
