(* ===== verification/Program.thy ===== *)
theory Program
  imports Logger Protobuf
begin

text \<open>
  What the two \<^verbatim>\<open>main\<close> functions share (\<^verbatim>\<open>server/src/main.cpp\<close>, \<^verbatim>\<open>client/src/main.cpp\<close>):
  the port argument, the text of a caught exception, how a process ends, and the event loop of
  \<^verbatim>\<open>io_context::run\<close>.
\<close>

text \<open>How a process ends: \<^verbatim>\<open>main\<close> returned, an uncaught exception, a failed assertion, undefined behaviour.\<close>

datatype process_end = Exit int | Terminate exn | Abort string | UndefinedBehaviour string | Running

definition is_space :: "char \<Rightarrow> bool" where
  "is_space c = (c \<in> {CHR '' '', CHR 0x09, CHR 0x0A, CHR 0x0B, CHR 0x0C, CHR 0x0D})"

definition is_digit :: "char \<Rightarrow> bool" where
  "is_digit c = (48 \<le> (of_char c :: nat) \<and> of_char c \<le> (57 :: nat))"

definition digits_value :: "string \<Rightarrow> int" where
  "digits_value s = fold (\<lambda>c v. 10 * v + (of_char c - 48)) s 0"

text \<open>\<^verbatim>\<open>std::atoi\<close>; a value that is not an \<^verbatim>\<open>int\<close> is undefined behaviour.\<close>

definition atoi :: "string \<Rightarrow> int option" where
  "atoi s =
     (let t = dropWhile is_space s;
          (neg, u) = (case t of [] \<Rightarrow> (False, []) | c # u \<Rightarrow>
             if c = CHR ''-'' then (True, u) else if c = CHR ''+'' then (False, u) else (False, c # u));
          v = digits_value (takeWhile is_digit u);
          r = (if neg then - v else v)
      in if - (2 ^ 31) \<le> r \<and> r < 2 ^ 31 then Some r else None)"

text \<open>The port argument: \<^verbatim>\<open>int\<close> is narrowed to \<^verbatim>\<open>unsigned short\<close>.\<close>

definition port_argument :: "port_t \<Rightarrow> string list \<Rightarrow> port_t option" where
  "port_argument dflt args =
     (case args of [] \<Rightarrow> Some dflt | a # _ \<Rightarrow> map_option (\<lambda>i. word_of_int i) (atoi a))"

definition caught_text :: "extlib \<Rightarrow> error_code \<Rightarrow> string" where
  "caught_text L ec = ''EXCEPTION CAUGHT:\<newline>'' @ show_error_code ec @ '': '' @ what_of L ec"

subsection \<open>The event loop\<close>

text \<open>
  \<^verbatim>\<open>io_context::run\<close> on one thread: the completion handlers are called one after the other, and
  what leaves a handler leaves the loop. The locale is the contract of a program's handlers:
  \<open>good n\<close> is an invariant that survives \<open>n\<close> more events, and every handler that is called
  when Asio may call it returns in the invariant, or leaves the loop with a listed exception or
  assertion, or was called in a corrupt situation.
\<close>

fun loop_run :: "('e \<Rightarrow> 's \<Rightarrow> ('s, unit) run) \<Rightarrow> 'e list \<Rightarrow> 's \<Rightarrow> ('s, unit) run" where
  "loop_run step [] s = (Ret (), s)"
| "loop_run step (e # es) s = andThen (step e s) (\<lambda>_. loop_run step es)"

fun loop_ok :: "('e \<Rightarrow> 's \<Rightarrow> ('s, unit) run) \<Rightarrow> ('s \<Rightarrow> 'e \<Rightarrow> bool) \<Rightarrow> 'e list \<Rightarrow> 's \<Rightarrow> bool" where
  "loop_ok step enabled [] s = True"
| "loop_ok step enabled (e # es) s =
     (enabled s e \<and> (case step e s of (Ret u, s') \<Rightarrow> loop_ok step enabled es s' | _ \<Rightarrow> True))"

fun loop_outcome :: "('s \<Rightarrow> bool) \<Rightarrow> (exn \<Rightarrow> bool) \<Rightarrow> string set \<Rightarrow> bool \<Rightarrow> ('s, unit) run \<Rightarrow> bool" where
  "loop_outcome good exns asserts corrupt (Ret u, s) = good s"
| "loop_outcome good exns asserts corrupt (Throw x, s) = exns x"
| "loop_outcome good exns asserts corrupt (AssertFail m, s) = (m \<in> asserts)"
| "loop_outcome good exns asserts corrupt (Undefined m, s) = corrupt"

locale event_loop =
  fixes step :: "'e \<Rightarrow> 's \<Rightarrow> ('s, unit) run"
    and enabled :: "'s \<Rightarrow> 'e \<Rightarrow> bool"
    and good :: "nat \<Rightarrow> 's \<Rightarrow> bool"
    and exns :: "exn \<Rightarrow> bool"
    and asserts :: "string set"
    and corrupt :: "'s \<Rightarrow> 'e \<Rightarrow> bool"
  assumes step_outcome:
    "good (Suc n) s \<Longrightarrow> enabled s e \<Longrightarrow> loop_outcome (good n) exns asserts (corrupt s e) (step e s)"
begin

lemma run_outcome:
  assumes "good (length es) s" and "loop_ok step enabled es s"
  shows "loop_outcome (good 0) exns asserts
    (\<exists>es1 e es2 s1. es = es1 @ e # es2 \<and> loop_run step es1 s = (Ret (), s1) \<and> corrupt s1 e) (loop_run step es s)"
  using assms
proof (induction es arbitrary: s)
  case (Cons e es)
  have outcome: "loop_outcome (good (length es)) exns asserts (corrupt s e) (step e s)"
    using Cons.prems by (intro step_outcome) simp_all
  obtain res s' where step: "step e s = (res, s')" by fastforce
  show ?case
  proof (cases res)
    case (Ret u)
    let ?bad = "\<lambda>es s. \<exists>es1 e es2 s1. es = es1 @ e # es2 \<and> loop_run step es1 s = (Ret (), s1) \<and> corrupt s1 e"
    have IH: "loop_outcome (good 0) exns asserts (?bad es s') (loop_run step es s')"
      using Cons.prems outcome step Ret by (intro Cons.IH) simp_all
    have "?bad es s' \<Longrightarrow> ?bad (e # es) s"
      using step Ret by (elim exE, rule_tac x = "e # es1" in exI) auto
    with IH show ?thesis
      using step Ret by (cases "fst (loop_run step es s')"; cases "loop_run step es s'") auto
  next
    case (Undefined m)
    with outcome step show ?thesis by (auto intro!: exI [of _ "[]"])
  qed (use outcome step in auto)
qed simp

end

subsection \<open>Reading back a printed number\<close>

lemma digit_char: "n < 10 \<Longrightarrow> is_digit (char_of (48 + n)) \<and> of_char (char_of (48 + n)) = 48 + n" for n :: nat
  by (simp add: is_digit_def)

lemma show_nat_digits: "list_all is_digit (show_nat n)"
  by (induction n rule: show_nat.induct, subst show_nat.simps) (simp add: digit_char)

lemma digits_value_snoc: "digits_value (s @ [c]) = 10 * digits_value s + (of_char c - 48)"
  by (simp add: digits_value_def)

lemma digits_value_show_nat: "digits_value (show_nat n) = int n"
proof (induction n rule: show_nat.induct)
  case (1 n)
  have d: "(of_char (char_of (48 + k)) :: int) = 48 + int k" if "k < 10" for k :: nat
  proof -
    have "of_char (char_of (48 + k)) = 48 + k" using digit_char [OF that] by simp
    then show ?thesis by (metis of_nat_add of_nat_numeral of_nat_of_char)
  qed
  show ?case
  proof (cases "n < 10")
    case True
    then show ?thesis using digits_value_snoc [of "[]"] d [of n]
      by (subst show_nat.simps) (simp add: digits_value_def)
  next
    case False
    have "digits_value (show_nat n) = 10 * int (n div 10) + int (n mod 10)"
      using False 1 d [of "n mod 10"] by (subst show_nat.simps) (simp add: digits_value_snoc)
    then show ?thesis by (simp add: zdiv_int zmod_int)
  qed
qed

lemma digit_not_sign: "is_digit c \<Longrightarrow> \<not> is_space c \<and> c \<noteq> CHR ''-'' \<and> c \<noteq> CHR ''+''"
  by (auto simp: is_digit_def is_space_def)

lemma atoi_show_nat:
  assumes "n < 2 ^ 31"
  shows "atoi (show_nat n) = Some (int n)"
proof -
  obtain c u where s: "show_nat n = c # u" by (cases "show_nat n") auto
  have c: "is_digit c" "list_all is_digit u" using show_nat_digits [of n] by (simp_all add: s)
  have "takeWhile is_digit (c # u) = c # u" using c by (simp add: list_all_iff)
  then show ?thesis
    using digits_value_show_nat [of n] digit_not_sign [OF c(1)] assms by (simp add: atoi_def s Let_def)
qed

subsection \<open>Properties\<close>

text \<open>
  C39. The port on the command line: a decimal number is read as written and then narrowed to 16 bits,
  so numbers above 65535 select another port without a diagnostic; without an argument the default
  port is used; and an argument that is not a number selects port 0.
\<close>

theorem port_argument_narrowed:
  "port_argument dflt [] = Some dflt \<and>
   (n < 2 ^ 31 \<longrightarrow> map_option unat (port_argument dflt (show_nat n # rest)) = Some (n mod 65536)) \<and>
   (\<not> is_digit c \<and> \<not> is_space c \<and> c \<noteq> CHR ''-'' \<and> c \<noteq> CHR ''+'' \<longrightarrow> port_argument dflt ((c # s) # rest) = Some 0)"
proof (intro conjI impI)
  assume "n < 2 ^ 31"
  then show "map_option unat (port_argument dflt (show_nat n # rest)) = Some (n mod 65536)"
    by (simp add: port_argument_def atoi_show_nat unat_of_nat take_bit_eq_mod)
qed (auto simp: port_argument_def atoi_def digits_value_def)

theorem port_argument_narrowed_witness:
  "map_option unat (port_argument 54321 [show_nat 65616]) = Some 80 \<and> port_argument 54321 [''http''] = Some 0"
  using port_argument_narrowed [of 54321 65616 "[]" "CHR ''h''" "''ttp''"]
  by (simp add: is_digit_def is_space_def)

end
