(* ===== verification/Server.thy ===== *)
theory Server
  imports Connection_Manager Program
begin

text \<open>
  The server: \<^verbatim>\<open>conn::AsyncTcpServer\<close> (\<^verbatim>\<open>server/src/conn/AsyncTcpServer.cpp\<close>) and
  \<^verbatim>\<open>server/src/main.cpp\<close>. The event loop of \<^verbatim>\<open>io_context::run\<close> calls one completion handler
  after the other on a single thread; an event is one such call, and \<open>event_ok\<close> says which calls
  Asio may make in a state. An exception leaves the loop.
\<close>

subsection \<open>Accepting\<close>

definition startAccept :: "extlib \<Rightarrow> server \<Rightarrow> (server, unit) run" where
  "startAccept L s =
     andThen (newConnection L EchoClientHandler s) (\<lambda>r s'.
       (Ret (), s'\<lparr>sv_accepting := sv_accepting s' @ [r]\<rparr>))"

definition handleAccept :: "extlib \<Rightarrow> ref \<Rightarrow> error_code \<Rightarrow> server \<Rightarrow> (server, unit) run" where
  "handleAccept L connection error s =
     andThen (if \<not> failed error then on_conn connection (TcpConnection_start L) s else (Ret (), s)) (\<lambda>_ s1.
       startAccept L (printOpenConnections (lg_out (lw_instance (sv_log s1))) s1))"

text \<open>
  The constructor's calls on the acceptor; \<open>sys\<close> gives the error code each of them ends with,
  and the first failure is thrown.
\<close>

datatype acceptor_call =
  AcceptorOpen | SetReuseAddress bool | SetV6Only bool | AcceptorBind port_t | AcceptorListen int

definition BACKLOG_SIZE :: int where
  "BACKLOG_SIZE = 32"

definition acceptor_calls :: "port_t \<Rightarrow> bool \<Rightarrow> acceptor_call list" where
  "acceptor_calls portNumber reuseAddress =
     [AcceptorOpen] @ (if reuseAddress then [SetReuseAddress True] else []) @
     [SetV6Only False, AcceptorBind portNumber, AcceptorListen BACKLOG_SIZE]"

fun run_acceptor_calls :: "(acceptor_call \<Rightarrow> error_code) \<Rightarrow> acceptor_call list \<Rightarrow> unit outcome" where
  "run_acceptor_calls sys [] = Ret ()"
| "run_acceptor_calls sys (a # as) =
     (if failed (sys a) then Throw (SystemError (sys a)) else run_acceptor_calls sys as)"

definition AsyncTcpServer_ctor ::
    "extlib \<Rightarrow> (acceptor_call \<Rightarrow> error_code) \<Rightarrow> port_t \<Rightarrow> bool \<Rightarrow> server \<Rightarrow> (server, unit) run" where
  "AsyncTcpServer_ctor L sys portNumber reuseAddress s =
     andThen (run_acceptor_calls sys (acceptor_calls portNumber reuseAddress), s) (\<lambda>_. startAccept L)"

subsection \<open>The event loop\<close>

datatype server_event = AcceptDone error_code | ReadDone ref read_event | SendDone ref error_code nat

fun event_ok :: "server \<Rightarrow> server_event \<Rightarrow> bool" where
  "event_ok s (AcceptDone ec) = (sv_accepting s \<noteq> [])"
| "event_ok s (ReadDone r e) =
     (case map_of (sv_connections s) r of
        Some c \<Rightarrow> completion_ok e (tc_reader c) | None \<Rightarrow> r \<in> set (sv_orphans s))"
| "event_ok s (SendDone r ec n) =
     (case map_of (sv_connections s) r of
        Some c \<Rightarrow> (case tc_pendingWrites c of [] \<Rightarrow> False | op # ops \<Rightarrow> asio_write_contract op ec n)
      | None \<Rightarrow> r \<in> set (sv_orphans s))"

fun server_step :: "extlib \<Rightarrow> server_event \<Rightarrow> server \<Rightarrow> (server, unit) run" where
  "server_step L (AcceptDone ec) s =
     (case sv_accepting s of
        [] \<Rightarrow> (Ret (), s)
      | r # rs \<Rightarrow> handleAccept L r ec (s\<lparr>sv_accepting := rs\<rparr>))"
| "server_step L (ReadDone r e) s = on_conn r (TcpConnection_onRead L e) s"
| "server_step L (SendDone r ec n) s = TcpConnection_onWrite ec n r s"

fun server_run :: "extlib \<Rightarrow> server_event list \<Rightarrow> server \<Rightarrow> (server, unit) run" where
  "server_run L [] s = (Ret (), s)"
| "server_run L (e # es) s = andThen (server_step L e s) (\<lambda>_. server_run L es)"

inductive server_reach :: "extlib \<Rightarrow> server \<Rightarrow> server \<Rightarrow> bool" for L s0 where
  start: "server_reach L s0 s0"
| step: "server_reach L s0 s \<Longrightarrow> event_ok s e \<Longrightarrow> server_step L e s = (Ret (), s') \<Longrightarrow> server_reach L s0 s'"

subsection \<open>The program\<close>

definition DEFAULT_PORT :: port_t where
  "DEFAULT_PORT = 54321"

definition initial_server :: server where
  "initial_server = \<lparr>sv_log = registerInstance std_logger initial_logw, sv_connections = [], sv_nextRef = 0,
     sv_nextId = 0, sv_accepting = [], sv_orphans = []\<rparr>"

text \<open>The \<^verbatim>\<open>try\<close> block of \<^verbatim>\<open>main\<close> catches \<^verbatim>\<open>std::system_error\<close> only.\<close>

fun finish_main :: "extlib \<Rightarrow> (server, unit) run \<Rightarrow> process_end \<times> server" where
  "finish_main L (Ret u, s) = (Running, s)"
| "finish_main L (Throw (SystemError ec), s) = (Exit 0, s\<lparr>sv_log := logError_line (caught_text L ec) (sv_log s)\<rparr>)"
| "finish_main L (Throw x, s) = (Terminate x, s)"
| "finish_main L (AssertFail m, s) = (Abort m, s)"
| "finish_main L (Undefined m, s) = (UndefinedBehaviour m, s)"

definition listening :: "port_t \<Rightarrow> server \<Rightarrow> server" where
  "listening portNum s =
     s\<lparr>sv_log := log_line (''Server listening on port '' @ show_nat (unat portNum) @ '' on any interface.'') (sv_log s)\<rparr>"

definition server_main ::
    "extlib \<Rightarrow> (acceptor_call \<Rightarrow> error_code) \<Rightarrow> string list \<Rightarrow> server_event list \<Rightarrow> process_end \<times> server" where
  "server_main L sys args es =
     (case port_argument DEFAULT_PORT args of
        None \<Rightarrow> (UndefinedBehaviour ''atoi'', initial_server)
      | Some portNum \<Rightarrow>
          finish_main L
            (andThen (AsyncTcpServer_ctor L sys portNum True initial_server) (\<lambda>_ s.
               server_run L es (listening portNum s))))"

subsection \<open>Invariant\<close>

definition server_inv :: "server \<Rightarrow> bool" where
  "server_inv s \<longleftrightarrow>
     manager_inv s \<and> sv_orphans s = [] \<and>
     (\<forall>(r, c) \<in> set (sv_connections s). tc_handler c = EchoClientHandler \<and> (conn_fresh c \<or> conn_running c)) \<and>
     (\<exists>r c. sv_accepting s = [r] \<and> map_of (sv_connections s) r = Some c \<and> conn_fresh c)"

lemma server_invD:
  "server_inv s \<Longrightarrow> map_of (sv_connections s) r = Some c \<Longrightarrow>
     tc_handler c = EchoClientHandler \<and> (conn_fresh c \<or> conn_running c)"
  by (auto simp: server_inv_def dest: map_of_SomeD)

lemma conn_fresh_not_running: "conn_fresh c \<Longrightarrow> \<not> conn_running c"
  by (auto simp: conn_fresh_def conn_running_def AsyncReader_ctor_def proto_inv_def proto_mode_def)

lemma conn_fresh_no_ops: "conn_fresh c \<Longrightarrow> pendingReads (tc_reader c) = [] \<and> tc_pendingWrites c = []"
  by (simp add: conn_fresh_def conn_idle_def AsyncReader_ctor_def)

lemma server_inv_update:
  assumes inv: "server_inv s" and c: "map_of (sv_connections s) r = Some c" "conn_running c"
    and c': "conn_running c'" "tc_id c' = tc_id c" "tc_handler c' = tc_handler c"
  shows "server_inv (s\<lparr>sv_connections := AList.update r c' (sv_connections s), sv_log := lw'\<rparr>)"
proof -
  let ?s = "s\<lparr>sv_connections := AList.update r c' (sv_connections s), sv_log := lw'\<rparr>"
  obtain r0 c0 where acc: "sv_accepting s = [r0]" "map_of (sv_connections s) r0 = Some c0" "conn_fresh c0"
    using inv by (auto simp: server_inv_def)
  then have "r0 \<noteq> r" using c conn_fresh_not_running by auto
  then have "map_of (sv_connections ?s) r0 = Some c0" using acc(2) by (simp add: update_conv)
  moreover have "manager_inv ?s" using inv c(1) c'(2) by (intro manager_inv_update) (auto simp: server_inv_def)
  moreover have "\<forall>(r, c) \<in> set (sv_connections ?s). tc_handler c = EchoClientHandler \<and> (conn_fresh c \<or> conn_running c)"
    using inv c'(1,3) server_invD [OF inv c(1)] set_update_subset [of r c' "sv_connections s"]
    by (auto simp: server_inv_def)
  ultimately show ?thesis using inv acc by (simp add: server_inv_def)
qed

text \<open>
  What an event can end in, from a state of the invariant: the next state of the invariant, an
  exception or assertion that a peer provokes, or the completion of a write whose buffer was
  overwritten.
\<close>

definition clobbered :: "server \<Rightarrow> server_event \<Rightarrow> bool" where
  "clobbered s e \<longleftrightarrow> (\<exists>r ec n c op ops. e = SendDone r ec n \<and> map_of (sv_connections s) r = Some c \<and>
     tc_pendingWrites c = op # ops \<and> \<not> wo_intact op)"

fun server_step_ok :: "(server, unit) run \<Rightarrow> bool" where
  "server_step_ok (Ret u, s) = server_inv s"
| "server_step_ok (Throw x, s) = peer_exn x"
| "server_step_ok (AssertFail m, s) = (m \<in> peer_assertions)"
| "server_step_ok (Undefined m, s) = False"

lemma running_if_reading:
  assumes "server_inv s" and "map_of (sv_connections s) r = Some c" and "completion_ok e (tc_reader c)"
  shows "conn_running c"
  using server_invD [OF assms(1,2)] conn_fresh_no_ops [of c] assms(3)
  by (auto simp: completion_ok_def split: prod.splits)

lemma event_ok_conn:
  assumes "server_inv s"
  shows "event_ok s (ReadDone r e) \<Longrightarrow> \<exists>c. map_of (sv_connections s) r = Some c \<and> completion_ok e (tc_reader c)"
    and "event_ok s (SendDone r ec n) \<Longrightarrow> \<exists>c op ops. map_of (sv_connections s) r = Some c \<and>
      tc_pendingWrites c = op # ops \<and> asio_write_contract op ec n"
  using assms by (auto simp: server_inv_def split: option.splits list.splits)

lemma conn_running_written:
  assumes "conn_running c" and "tc_pendingWrites c = op # ops"
  shows "ops = []" and "conn_running (c\<lparr>tc_pendingWrites := [], tc_writeInProgress := False\<rparr>)"
proof -
  have "length (tc_pendingWrites c) = (if tc_writeInProgress c then 1 else 0)"
    using assms(1) by (simp add: conn_running_def conn_inv_def send_inv_def)
  with assms(2) show "ops = []" by (auto split: if_splits)
  show "conn_running (c\<lparr>tc_pendingWrites := [], tc_writeInProgress := False\<rparr>)"
    using assms(1) by (simp add: conn_running_def conn_inv_def send_inv_def)
qed

lemma onWrite_eq:
  assumes "map_of (sv_connections s) r = Some c" and "tc_handler c = EchoClientHandler"
    and "tc_pendingWrites c = [op]" and "wo_intact op"
  shows "\<exists>lw'. TcpConnection_onWrite ec n r s =
    (Ret (), s\<lparr>sv_connections := AList.update r (c\<lparr>tc_pendingWrites := [], tc_writeInProgress := False\<rparr>)
       (sv_connections s), sv_log := lw'\<rparr>)"
proof -
  let ?c1 = "c\<lparr>tc_pendingWrites := []\<rparr>"
  let ?s1 = "s\<lparr>sv_connections := AList.update r ?c1 (sv_connections s)\<rparr>"
  have look: "map_of (sv_connections ?s1) r = Some ?c1" by (simp add: update_conv)
  have twice: "AList.update r x (AList.update r y xs) = AList.update r x xs" for x y :: TcpConnection and xs
    by (induction xs) auto
  have "TcpConnection_onWrite ec n r s = TcpConnection_handleWrite ec n r ?s1"
    using assms(3,4) by (simp add: TcpConnection_onWrite_def on_conn_def assms(1))
  also have "\<exists>lw'. \<dots> = (Ret (), s\<lparr>sv_connections := AList.update r (c\<lparr>tc_pendingWrites := [], tc_writeInProgress := False\<rparr>)
       (sv_connections s), sv_log := lw'\<rparr>)"
    using assms(2) look by (auto simp: TcpConnection_handleWrite_def on_conn_def twice)
  finally show ?thesis .
qed

context protobuf
begin

lemma server_read_step:
  assumes "server_inv s" and "event_ok s (ReadDone r e)"
  shows "server_step_ok (server_step L (ReadDone r e) s)"
proof -
  from event_ok_conn(1) [OF assms] obtain c where c: "map_of (sv_connections s) r = Some c"
    and ok: "completion_ok e (tc_reader c)" by blast
  have run: "conn_running c" by (rule running_if_reading [OF assms(1) c ok])
  obtain res c' lw' where step: "TcpConnection_onRead L e (c, sv_log s) = (res, (c', lw'))"
    by (cases "TcpConnection_onRead L e (c, sv_log s)") auto
  with onRead_step [OF run ok, of "sv_log s"] have "conn_step_ok c (res, (c', lw'))" by simp
  then show ?thesis using on_conn_Some [OF c, of "TcpConnection_onRead L e", OF step] server_inv_update [OF assms(1) c run]
    by (cases res) auto
qed

lemma server_send_step:
  assumes "server_inv s" and "event_ok s (SendDone r ec n)" and "\<not> clobbered s (SendDone r ec n)"
  shows "server_step_ok (server_step L (SendDone r ec n) s)"
proof -
  from event_ok_conn(2) [OF assms(1,2)] obtain c op ops
    where c: "map_of (sv_connections s) r = Some c" and p: "tc_pendingWrites c = op # ops" by blast
  then have intact: "wo_intact op" using assms(3) by (auto simp: clobbered_def)
  have run: "conn_running c" using server_invD [OF assms(1) c] conn_fresh_no_ops [of c] p by auto
  have "tc_handler c = EchoClientHandler" using server_invD [OF assms(1) c] by blast
  from onWrite_eq [OF c this _ intact, of ec n] p conn_running_written [OF run p]
  obtain lw' where "TcpConnection_onWrite ec n r s =
    (Ret (), s\<lparr>sv_connections := AList.update r (c\<lparr>tc_pendingWrites := [], tc_writeInProgress := False\<rparr>)
       (sv_connections s), sv_log := lw'\<rparr>)" by auto
  then show ?thesis using server_inv_update [OF assms(1) c run conn_running_written(2) [OF run p]] by simp
qed

lemma startAccept_eq:
  obtains c where "startAccept L s = (Ret (), s\<lparr>sv_nextId := sv_nextId s + 1,
      sv_connections := sv_connections s @ [(sv_nextRef s, c)], sv_nextRef := Suc (sv_nextRef s),
      sv_accepting := sv_accepting s @ [sv_nextRef s]\<rparr>)"
    and "conn_fresh c" and "tc_id c = sv_nextId s" and "tc_handler c = EchoClientHandler"
proof -
  from newConnection_eq [of EchoClientHandler s] obtain c where "newConnection L EchoClientHandler s =
      (Ret (sv_nextRef s), s\<lparr>sv_nextId := sv_nextId s + 1, sv_connections := sv_connections s @ [(sv_nextRef s, c)],
         sv_nextRef := Suc (sv_nextRef s)\<rparr>)"
    and "conn_fresh c" "tc_id c = sv_nextId s" "tc_handler c = EchoClientHandler" by blast
  then show thesis by (intro that [of c]) (simp_all add: startAccept_def)
qed

text \<open>\<open>startAccept\<close> from a state where everything but the pending accept is in place.\<close>

lemma startAccept_inv:
  assumes "manager_inv s" and "sv_orphans s = []" and "sv_accepting s = []" and "Suc (sv_nextRef s) < 2 ^ 64"
    and "\<forall>(r, c) \<in> set (sv_connections s). tc_handler c = EchoClientHandler \<and> (conn_fresh c \<or> conn_running c)"
  shows "\<exists>s'. startAccept L s = (Ret (), s') \<and> server_inv s' \<and> sv_nextRef s' = Suc (sv_nextRef s) \<and>
    (\<exists>c. sv_connections s' = sv_connections s @ [(sv_nextRef s, c)] \<and> conn_fresh c)"
proof (rule startAccept_eq [of s])
  fix c
  let ?s = "s\<lparr>sv_nextId := sv_nextId s + 1, sv_connections := sv_connections s @ [(sv_nextRef s, c)],
    sv_nextRef := Suc (sv_nextRef s), sv_accepting := sv_accepting s @ [sv_nextRef s]\<rparr>"
  assume st: "startAccept L s = (Ret (), ?s)" and c: "conn_fresh c" "tc_id c = sv_nextId s" "tc_handler c = EchoClientHandler"
  have m: "manager_inv ?s" by (rule manager_inv_new [OF assms(1,4) c(2)]) simp_all
  have "sv_nextRef s \<notin> fst ` set (sv_connections s)" using assms(1) by (auto simp: manager_inv_def refs_def)
  then have "map_of (sv_connections ?s) (sv_nextRef s) = Some c"
    by (simp add: map_add_Some_iff map_of_eq_None_iff)
  moreover have "sv_accepting ?s = [sv_nextRef s]" using assms(3) by simp
  moreover have "\<forall>(r, c) \<in> set (sv_connections ?s). tc_handler c = EchoClientHandler \<and> (conn_fresh c \<or> conn_running c)"
    using assms(5) c by simp
  ultimately have "server_inv ?s" using m assms(2) c(1) unfolding server_inv_def by simp
  with st c(1) show ?thesis by auto
qed

lemma server_accept_step:
  assumes inv: "server_inv s" and bound: "Suc (sv_nextRef s) < 2 ^ 64" and acc: "sv_accepting s = [r]"
  shows "\<exists>s'. server_step L (AcceptDone ec) s = (Ret (), s') \<and> server_inv s' \<and>
    sv_nextRef s' = Suc (sv_nextRef s) \<and> length (sv_connections s') = Suc (length (sv_connections s)) \<and>
    (\<forall>r'. r' \<noteq> r \<longrightarrow> r' \<noteq> sv_nextRef s \<longrightarrow> map_of (sv_connections s') r' = map_of (sv_connections s) r') \<and>
    (\<exists>cn. map_of (sv_connections s') (sv_nextRef s) = Some cn \<and> conn_fresh cn) \<and>
    (failed ec \<longrightarrow> map_of (sv_connections s') r = map_of (sv_connections s) r) \<and>
    (\<not> failed ec \<longrightarrow> (\<exists>c'. map_of (sv_connections s') r = Some c' \<and> await_frame c' \<and>
       tc_pendingWrites c' = [\<lparr>wo_data = frame L (chat_body L welcome_message), wo_intact = True\<rparr>]))"
proof -
  obtain c where c: "map_of (sv_connections s) r = Some c" "conn_fresh c"
    using inv acc by (auto simp: server_inv_def)
  have h: "tc_handler c = EchoClientHandler" using server_invD [OF inv c(1)] by blast
  from start_echo_connection [OF c(2) h, of "sv_log s"] obtain c1
    where c1: "TcpConnection_start L (c, sv_log s) = (Ret (), (c1, sv_log s))" "conn_running c1"
      "await_prefix (tc_protocol c1) (tc_reader c1)" "tc_id c1 = tc_id c" "tc_handler c1 = tc_handler c"
      "tc_pendingWrites c1 = [\<lparr>wo_data = frame L (chat_body L welcome_message), wo_intact = True\<rparr>]"
    by blast
  let ?c = "if failed ec then c else c1"
  let ?conns = "AList.update r ?c (sv_connections s)"
  have same: "failed ec \<Longrightarrow> ?conns = sv_connections s"
    using c(1) by (simp add: update_triv)
  let ?s1 = "s\<lparr>sv_accepting := [], sv_connections := ?conns\<rparr>"
  let ?s2 = "printOpenConnections (lg_out (lw_instance (sv_log s))) ?s1"
  have "server_step L (AcceptDone ec) s = startAccept L ?s2"
    using c c1(1) acc same by (auto simp: handleAccept_def on_conn_def)
  moreover have "\<exists>s'. startAccept L ?s2 = (Ret (), s') \<and> server_inv s' \<and>
      sv_nextRef s' = Suc (sv_nextRef ?s2) \<and> (\<exists>c. sv_connections s' = sv_connections ?s2 @ [(sv_nextRef ?s2, c)] \<and> conn_fresh c)"
  proof (rule startAccept_inv)
    have mi: "manager_inv s" using inv by (simp add: server_inv_def)
    have "tc_id ?c = tc_id c" using c1(4) by simp
    from manager_inv_update [OF mi c(1) this, of "sv_log s"]
    show "manager_inv ?s2"
      by (simp add: manager_inv_def refs_def ids_def printOpenConnections_def)
    show "\<forall>(r, c) \<in> set (sv_connections ?s2). tc_handler c = EchoClientHandler \<and> (conn_fresh c \<or> conn_running c)"
      using inv c(2) c1(2,5) h set_update_subset [of r ?c "sv_connections s"]
      by (auto simp: server_inv_def printOpenConnections_def split: if_splits)
  qed (use inv bound in \<open>simp_all add: printOpenConnections_def server_inv_def\<close>)
  ultimately obtain s' cn where s': "server_step L (AcceptDone ec) s = (Ret (), s')" "server_inv s'"
    "sv_nextRef s' = Suc (sv_nextRef s)" "sv_connections s' = ?conns @ [(sv_nextRef s, cn)]" "conn_fresh cn"
    by (auto simp: printOpenConnections_def)
  have len: "length ?conns = length (sv_connections s)"
    using update_keys_mem [OF c(1), of ?c] by (metis length_map)
  have look: "map_of (sv_connections s') r' = (if r' = r then Some ?c else map_of (sv_connections s) r')"
    if "r' \<noteq> sv_nextRef s" for r'
    using that by (auto simp: s'(4) update_conv map_add_def split: option.splits)
  have "map_of (sv_connections s) r' = None" if "\<not> r' < sv_nextRef s" for r'
    using inv that map_of_refs [of s r'] by (auto simp: server_inv_def manager_inv_def)
  then have r: "r < sv_nextRef s" "map_of (sv_connections s) (sv_nextRef s) = None" using c(1) by (force, simp)
  then have "map_of (sv_connections s') (sv_nextRef s) = Some cn" by (simp add: s'(4) update_conv map_add_def)
  then show ?thesis using s' len look c1 c(1) r(1) by (auto simp: await_frame_def)
qed

end

subsection \<open>Reachable states\<close>

inductive_cases server_reach_cases: "server_reach L s0 s"

lemma andThen_keeps:
  assumes "\<And>a s. g (snd (f a s)) = g s"
  shows "g (snd (andThen r f)) = g (snd r)"
  by (cases "(r, f)" rule: andThen.cases) (auto simp: assms)

lemma on_conn_keeps [simp]:
  "sv_nextRef (snd (on_conn r f s)) = sv_nextRef s"
  "r' \<noteq> r \<Longrightarrow> map_of (sv_connections (snd (on_conn r f s))) r' = map_of (sv_connections s) r'"
  by (auto simp: on_conn_def update_conv split: option.splits prod.splits)

lemma on_conn_nextRef: "on_conn r f s = (res, s') \<Longrightarrow> sv_nextRef s' = sv_nextRef s"
  using on_conn_keeps(1) [of r f s] by (metis snd_conv)

lemma nextRef_close [simp]: "sv_nextRef (snd (TcpConnection_close r s)) = sv_nextRef s"
  unfolding TcpConnection_close_def
  by (subst andThen_keeps [where g = sv_nextRef]) (auto simp: connectionClosed_def purgeConnection_def split: option.splits)

lemma nextRef_handleWrite [simp]: "sv_nextRef (snd (TcpConnection_handleWrite ec n r s)) = sv_nextRef s"
proof -
  have "sv_nextRef (snd (handleSendComplete k r s')) = sv_nextRef s'" for k s' by (cases k) simp_all
  then show ?thesis unfolding TcpConnection_handleWrite_def by (subst andThen_keeps [where g = sv_nextRef]) simp_all
qed

lemma nextRef_onWrite [simp]: "sv_nextRef (snd (TcpConnection_onWrite ec n r s)) = sv_nextRef s"
  unfolding TcpConnection_onWrite_def by (subst andThen_keeps [where g = sv_nextRef]) simp_all

context protobuf
begin

lemma nextRef_startAccept: "sv_nextRef (snd (startAccept L s)) = Suc (sv_nextRef s)"
  by (rule startAccept_eq [of s]) simp

lemma nextRef_step: "server_step L e s = (Ret (), s') \<Longrightarrow>
    sv_nextRef s' = sv_nextRef s + (case e of AcceptDone ec \<Rightarrow> if sv_accepting s = [] then 0 else 1 | _ \<Rightarrow> 0)"
proof (cases e)
  case (AcceptDone ec)
  assume step: "server_step L e s = (Ret (), s')"
  show ?thesis
  proof (cases "sv_accepting s")
    case (Cons r rs)
    obtain res s1 where r: "(if \<not> failed ec then on_conn r (TcpConnection_start L) (s\<lparr>sv_accepting := rs\<rparr>)
        else (Ret (), s\<lparr>sv_accepting := rs\<rparr>)) = (res, s1)" by fastforce
    then have s1: "sv_nextRef s1 = sv_nextRef s"
      by (auto split: if_splits dest!: on_conn_nextRef)
    have "startAccept L (printOpenConnections (lg_out (lw_instance (sv_log s1))) s1) = (Ret (), s')"
      using step AcceptDone Cons by (cases res) (simp_all add: handleAccept_def r)
    with nextRef_startAccept [of "printOpenConnections (lg_out (lw_instance (sv_log s1))) s1"] s1 AcceptDone Cons
    show ?thesis by (simp add: printOpenConnections_def)
  qed (use step AcceptDone in simp)
next
  case (ReadDone r x)
  assume "server_step L e s = (Ret (), s')"
  with ReadDone show ?thesis by (auto dest: on_conn_nextRef)
next
  case (SendDone r ec n)
  assume "server_step L e s = (Ret (), s')"
  with SendDone show ?thesis by (simp, metis nextRef_onWrite snd_conv)
qed

text \<open>Every event that Asio may deliver, in any state of the invariant.\<close>

lemma server_step_cases:
  assumes "server_inv s" and "event_ok s e" and "Suc (sv_nextRef s) < 2 ^ 64"
  shows "clobbered s e \<and> (\<exists>m. fst (server_step L e s) = Undefined m) \<or> server_step_ok (server_step L e s)"
proof (cases "clobbered s e")
  case True
  then obtain r ec n c op ops where e: "e = SendDone r ec n" and c: "map_of (sv_connections s) r = Some c"
    "tc_pendingWrites c = op # ops" "\<not> wo_intact op" by (auto simp: clobbered_def)
  then show ?thesis using True by (simp add: TcpConnection_onWrite_def on_conn_def)
next
  case False
  show ?thesis
  proof (cases e)
    case (AcceptDone ec)
    obtain r where "sv_accepting s = [r]" using assms(1) by (auto simp: server_inv_def)
    from server_accept_step [OF assms(1,3) this, of ec] AcceptDone show ?thesis by auto
  qed (use server_read_step server_send_step assms(1,2) False in \<open>simp_all del: server_step.simps event_ok.simps\<close>)
qed

lemma clobbered_undefined: "clobbered s e \<Longrightarrow> server_step L e s \<noteq> (Ret (), s')"
  by (auto simp: clobbered_def TcpConnection_onWrite_def on_conn_def)

lemma server_step_inv:
  assumes "server_inv s" and "event_ok s e" and "server_step L e s = (Ret (), s')" and "sv_nextRef s' < 2 ^ 64"
  shows "server_inv s'"
proof (cases e)
  case (AcceptDone ec)
  obtain r where r: "sv_accepting s = [r]" using assms(1) by (auto simp: server_inv_def)
  have "Suc (sv_nextRef s) < 2 ^ 64" using nextRef_step [OF assms(3)] assms(4) AcceptDone r by simp
  from server_accept_step [OF assms(1) this r, of ec] AcceptDone assms(3) show ?thesis by auto
next
  case (ReadDone r x)
  with server_read_step [OF assms(1)] assms(2,3) show ?thesis by (metis server_step_ok.simps(1))
next
  case (SendDone r ec n)
  then have "\<not> clobbered s (SendDone r ec n)" using clobbered_undefined assms(3) by blast
  with SendDone server_send_step [OF assms(1)] assms(2,3) show ?thesis by (metis server_step_ok.simps(1))
qed

lemma server_reach_inv:
  "server_reach L s0 s \<Longrightarrow> server_inv s0 \<Longrightarrow> sv_nextRef s < 2 ^ 64 \<Longrightarrow> server_inv s"
proof (induction rule: server_reach.induct)
  case (step s e s')
  have "sv_nextRef s \<le> sv_nextRef s'" using nextRef_step [OF step.hyps(3)] by simp
  with step.prems(2) have "sv_nextRef s < 2 ^ 64" by simp
  with step.IH step.prems(1) have "server_inv s" by blast
  then show ?case using step.hyps(2,3) step.prems(2) by (rule server_step_inv)
qed simp

lemma ctor_inv:
  assumes "AsyncTcpServer_ctor L sys p reuse initial_server = (Ret (), s)"
  shows "server_inv s" and "sv_nextRef s = 1"
proof -
  have "startAccept L initial_server = (Ret (), s)"
    using assms by (cases "run_acceptor_calls sys (acceptor_calls p reuse)") (simp_all add: AsyncTcpServer_ctor_def)
  moreover have "\<exists>s'. startAccept L initial_server = (Ret (), s') \<and> server_inv s' \<and>
      sv_nextRef s' = Suc (sv_nextRef initial_server) \<and>
      (\<exists>c. sv_connections s' = sv_connections initial_server @ [(sv_nextRef initial_server, c)] \<and> conn_fresh c)"
    by (rule startAccept_inv) (simp_all add: initial_server_def manager_inv_def refs_def ids_def)
  ultimately show "server_inv s" "sv_nextRef s = 1" by (auto simp: initial_server_def)
qed

lemma ctor_returns:
  assumes "\<forall>a. \<not> failed (sys a)"
  obtains s where "AsyncTcpServer_ctor L sys p reuse initial_server = (Ret (), s)"
proof -
  have calls: "run_acceptor_calls sys as = Ret ()" for as by (induction as) (simp_all add: assms)
  show thesis by (rule startAccept_eq [of initial_server]) (auto intro: that simp: AsyncTcpServer_ctor_def calls)
qed

text \<open>The handlers of the server under the contract of the event loop.\<close>

lemma server_event_loop:
  "event_loop (server_step L) event_ok (\<lambda>n s. server_inv s \<and> sv_nextRef s + n < 2 ^ 64)
     peer_exn peer_assertions clobbered"
proof
  fix n s e
  assume "server_inv s \<and> sv_nextRef s + Suc n < 2 ^ 64" and ok: "event_ok s e"
  then have inv: "server_inv s" and n: "sv_nextRef s + Suc n < 2 ^ 64" by auto
  obtain res s' where step: "server_step L e s = (res, s')" by fastforce
  have "sv_nextRef s' + n < 2 ^ 64" if "res = Ret ()"
    using nextRef_step [of e s s'] step that n by (auto split: if_splits server_event.splits)
  with server_step_cases [OF inv ok] n step
  show "loop_outcome (\<lambda>s. server_inv s \<and> sv_nextRef s + n < 2 ^ 64) peer_exn peer_assertions (clobbered s e) (server_step L e s)"
    by (cases res) auto
qed

lemma listening_inv [simp]: "server_inv (listening p s) = server_inv s" "sv_nextRef (listening p s) = sv_nextRef s"
  by (simp_all add: listening_def server_inv_def manager_inv_def refs_def ids_def)

end

lemma server_run_loop: "server_run L es = loop_run (server_step L) es"
  by (induction es) (auto intro!: ext)

lemma startup_outcome:
  "(\<exists>a \<in> set as. failed (sys a) \<and> run_acceptor_calls sys as = Throw (SystemError (sys a))) \<or> run_acceptor_calls sys as = Ret ()"
  by (induction as) auto

interpretation wire_server_loop: event_loop "server_step wire_lib" event_ok
  "\<lambda>n s. server_inv s \<and> sv_nextRef s + n < 2 ^ 64" peer_exn peer_assertions clobbered
  by (rule wire.server_event_loop)

subsection \<open>A server in use\<close>

text \<open>One started connection and the connection of the pending accept.\<close>

definition pending_connection :: "size_t \<Rightarrow> TcpConnection" where
  "pending_connection i = \<lparr>tc_id = i, tc_reader = AsyncReader_ctor MAX_READ_BUFFER_SIZE_BYTES,
     tc_handler = EchoClientHandler, tc_protocol = wire_protocol, tc_sendMsg = [], tc_writeInProgress = False,
     tc_pendingWrites = []\<rparr>"

definition busy_server :: server where
  "busy_server = initial_server\<lparr>sv_connections := [(0, idle_connection 0), (1, pending_connection 1)],
     sv_nextRef := 2, sv_nextId := 2, sv_accepting := [1]\<rparr>"

lemma busy_server_inv: "server_inv busy_server"
proof -
  have "conn_fresh (pending_connection 1)"
    by (simp add: conn_fresh_def pending_connection_def conn_inv_def conn_idle_def send_inv_def Protocol_inv_def
        AsyncReader_ctor_def)
  moreover have "conn_running (idle_connection 0)" using idle_connection_ok(1) by (simp add: await_frame_def)
  ultimately show ?thesis
    by (simp add: server_inv_def busy_server_def initial_server_def manager_inv_def refs_def ids_def)
      (simp add: pending_connection_def idle_connection_def)
qed

subsection \<open>Properties\<close>

text \<open>
  C12. Every state the server can reach, from its construction on, whatever the clients send and
  whatever errors Asio reports, keeps the invariant: identities and references are distinct, exactly
  one accept is pending and its connection is new, and every other connection is either new or in
  the frame loop with at most one write outstanding. The bound is the wrap-around of the identity
  counter.
\<close>

theorem reachable_states_keep_invariant:
  assumes "protobuf L utf8" and "AsyncTcpServer_ctor L sys portNumber reuseAddress initial_server = (Ret (), s0)"
    and "server_reach L s0 s" and "sv_nextRef s < 2 ^ 64"
  shows "server_inv s"
  by (rule protobuf.server_reach_inv [OF assms(1,3) protobuf.ctor_inv(1) [OF assms(1,2)] assms(4)])

theorem reachable_states_keep_invariant_witness:
  "\<exists>s0 s. AsyncTcpServer_ctor wire_lib (\<lambda>_. no_error) 54321 True initial_server = (Ret (), s0) \<and>
     server_step wire_lib (AcceptDone no_error) s0 = (Ret (), s) \<and> server_inv s"
proof -
  obtain s0 where s0: "AsyncTcpServer_ctor wire_lib (\<lambda>_. no_error) 54321 True initial_server = (Ret (), s0)"
    by (rule wire.ctor_returns [of "\<lambda>_. no_error" 54321 True]) simp_all
  note inv = wire.ctor_inv [OF s0]
  obtain r where r: "sv_accepting s0 = [r]" using inv(1) by (auto simp: server_inv_def)
  from wire.server_accept_step [OF inv(1) _ r, of no_error] inv(2) obtain s
    where s: "server_step wire_lib (AcceptDone no_error) s0 = (Ret (), s)" "sv_nextRef s = Suc (sv_nextRef s0)" by auto
  have "server_reach wire_lib s0 s"
    using s(1) r by (intro server_reach.step [OF server_reach.start, of s0 "AcceptDone no_error"]) simp_all
  from reachable_states_keep_invariant [OF wire.protobuf_axioms s0 this] s inv(2) s0 show ?thesis by auto
qed

text \<open>
  C13. What a single event can do in a state of the invariant, for any event that Asio may deliver:
  the handler returns in a state of the invariant, or it ends in one of the exceptions or in one of
  the two assertions that a peer's bytes can provoke; undefined behaviour is left only for the
  completion of a write whose buffer was overwritten by a later \<^verbatim>\<open>send\<close>.
\<close>

theorem server_step_outcomes:
  assumes "protobuf L utf8" and "server_inv s" and "event_ok s e" and "Suc (sv_nextRef s) < 2 ^ 64"
  shows "case server_step L e s of
      (Ret _, s') \<Rightarrow> server_inv s'
    | (Throw x, s') \<Rightarrow> peer_exn x
    | (AssertFail m, s') \<Rightarrow> m \<in> {''_deserFramePrefixCache.type() == proto::FramePrefix::ECHO'',
         ''echoMessage->type() == proto::ChatMessage::ECHO_REQUEST''}
    | (Undefined m, s') \<Rightarrow> (\<exists>r ec n c op ops. e = SendDone r ec n \<and> map_of (sv_connections s) r = Some c \<and>
         tc_pendingWrites c = op # ops \<and> \<not> wo_intact op)"
proof -
  obtain res s' where step: "server_step L e s = (res, s')" by fastforce
  from protobuf.server_step_cases [OF assms] step show ?thesis
    by (cases res) (auto simp: peer_assertions_def clobbered_def)
qed

theorem server_step_outcomes_witness:
  "case server_step wire_lib (AcceptDone no_error) busy_server of
      (Ret _, s') \<Rightarrow> server_inv s'
    | (Throw x, s') \<Rightarrow> peer_exn x
    | (AssertFail m, s') \<Rightarrow> m \<in> {''_deserFramePrefixCache.type() == proto::FramePrefix::ECHO'',
         ''echoMessage->type() == proto::ChatMessage::ECHO_REQUEST''}
    | (Undefined m, s') \<Rightarrow> (\<exists>r ec n c op ops. AcceptDone no_error = SendDone r ec n \<and>
         map_of (sv_connections busy_server) r = Some c \<and> tc_pendingWrites c = op # ops \<and> \<not> wo_intact op)"
  by (rule server_step_outcomes [OF wire.protobuf_axioms busy_server_inv]) (simp_all add: busy_server_def)

text \<open>
  C28. One client's disconnect stops the server: in every state of the invariant, if the outstanding
  read of any connection ends with an error, end of file included, the exception leaves the event
  loop and \<^verbatim>\<open>main\<close> returns 0 after logging it; all other connections are lost.
\<close>

theorem disconnect_stops_server:
  assumes "server_inv s" and "event_ok s (ReadDone r (ec, n, data))" and "failed ec"
  shows "\<exists>s'. server_run L (ReadDone r (ec, n, data) # es) s = (Throw (SystemError ec), s') \<and>
    finish_main L (server_run L (ReadDone r (ec, n, data) # es) s) =
      (Exit 0, s'\<lparr>sv_log := logError_line (caught_text L ec) (sv_log s')\<rparr>)"
proof -
  from event_ok_conn(1) [OF assms(1,2)] obtain c where c: "map_of (sv_connections s) r = Some c"
    "completion_ok (ec, n, data) (tc_reader c)" by blast
  then obtain q where q: "pendingReads (tc_reader c) = [q]"
    using running_if_reading [OF assms(1) c] by (auto simp: conn_running_def proto_inv_def await_prefix_def
        await_message_def)
  obtain rd lw where "completeRead L (ec, n, data) (tc_reader c, tc_protocol c, sv_log s) =
      (Throw (SystemError ec), (rd, tc_protocol c, lw))" using completeRead_failed [OF assms(3) q] by metis
  then have "on_conn r (TcpConnection_onRead L (ec, n, data)) s =
      (Throw (SystemError ec), s\<lparr>sv_connections := AList.update r (c\<lparr>tc_reader := rd\<rparr>) (sv_connections s), sv_log := lw\<rparr>)"
    by (intro on_conn_Some [OF c(1)]) (simp add: TcpConnection_onRead_def)
  then show ?thesis by simp
qed

theorem disconnect_stops_server_witness:
  "\<exists>s'. server_run wire_lib [ReadDone 0 (asio_eof wire_lib, 0, [])] busy_server =
      (Throw (SystemError (asio_eof wire_lib)), s') \<and>
    finish_main wire_lib (server_run wire_lib [ReadDone 0 (asio_eof wire_lib, 0, [])] busy_server) =
      (Exit 0, s'\<lparr>sv_log := logError_line (caught_text wire_lib (asio_eof wire_lib)) (sv_log s')\<rparr>)"
proof -
  have "event_ok busy_server (ReadDone 0 (asio_eof wire_lib, 0, []))"
    using wire.eof_failed by (simp add: busy_server_def idle_connection_def completion_ok_def FRAME_PREFIX_SIZE_def)
  from disconnect_stops_server [OF busy_server_inv this wire.eof_failed] show ?thesis .
qed

text \<open>
  C10. How a server process can end, whatever its arguments, the operating system and its clients do:
  it keeps running in the invariant; or \<^verbatim>\<open>main\<close> returns 0 after logging an I/O error, one of the
  acceptor's calls at startup included; or it is terminated by an exception that a peer's bytes
  provoke, which \<^verbatim>\<open>main\<close> does not catch; or it is aborted by one of the two assertions on received
  types. Undefined behaviour is left for a port argument that is not an \<^verbatim>\<open>int\<close> and for the completion
  of a write whose buffer was overwritten.
\<close>

theorem server_main_outcomes:
  assumes "protobuf L utf8" and "Suc (length es) < 2 ^ 64"
    and "\<And>portNum s. port_argument DEFAULT_PORT args = Some portNum \<Longrightarrow>
      AsyncTcpServer_ctor L sys portNum True initial_server = (Ret (), s) \<Longrightarrow>
      loop_ok (server_step L) event_ok es (listening portNum s)"
  shows "case server_main L sys args es of
      (Running, s) \<Rightarrow> server_inv s
    | (Exit n, s) \<Rightarrow> n = 0 \<and> (\<exists>ec s'. failed ec \<and> s = s'\<lparr>sv_log := logError_line (caught_text L ec) (sv_log s')\<rparr>)
    | (Terminate x, s) \<Rightarrow> peer_exn x \<and> (\<forall>ec. x \<noteq> SystemError ec)
    | (Abort m, s) \<Rightarrow> m \<in> {''_deserFramePrefixCache.type() == proto::FramePrefix::ECHO'',
         ''echoMessage->type() == proto::ChatMessage::ECHO_REQUEST''}
    | (UndefinedBehaviour m, s) \<Rightarrow> port_argument DEFAULT_PORT args = None \<or>
        (\<exists>portNum s0 es1 e es2 s1. AsyncTcpServer_ctor L sys portNum True initial_server = (Ret (), s0) \<and>
           es = es1 @ e # es2 \<and> server_run L es1 (listening portNum s0) = (Ret (), s1) \<and> clobbered s1 e)"
proof (cases "port_argument DEFAULT_PORT args")
  case (Some portNum)
  let ?ctor = "AsyncTcpServer_ctor L sys portNum True initial_server"
  from startup_outcome [of "acceptor_calls portNum True" sys] show ?thesis
  proof
    assume "\<exists>a \<in> set (acceptor_calls portNum True). failed (sys a) \<and>
      run_acceptor_calls sys (acceptor_calls portNum True) = Throw (SystemError (sys a))"
    then obtain ec where "failed ec" "?ctor = (Throw (SystemError ec), initial_server)"
      by (auto simp: AsyncTcpServer_ctor_def)
    then show ?thesis by (auto simp: server_main_def Some)
  next
    assume "run_acceptor_calls sys (acceptor_calls portNum True) = Ret ()"
    then obtain s where s: "?ctor = (Ret (), s)"
      using protobuf.startAccept_eq [OF assms(1), of initial_server] by (auto simp: AsyncTcpServer_ctor_def)
    note inv = protobuf.ctor_inv [OF assms(1) s]
    have outcome: "loop_outcome (\<lambda>s. server_inv s \<and> sv_nextRef s + 0 < 2 ^ 64) peer_exn peer_assertions
      (\<exists>es1 e es2 s1. es = es1 @ e # es2 \<and> loop_run (server_step L) es1 (listening portNum s) = (Ret (), s1) \<and> clobbered s1 e)
      (loop_run (server_step L) es (listening portNum s))"
      using inv assms(2) assms(3) [OF Some s]
      by (intro event_loop.run_outcome [OF protobuf.server_event_loop [OF assms(1)]]) simp_all
    obtain res s' where run: "loop_run (server_step L) es (listening portNum s) = (res, s')" by fastforce
    have main: "server_main L sys args es = finish_main L (res, s')"
      by (simp add: server_main_def Some s server_run_loop run)
    show ?thesis
    proof (cases res)
      case (Throw x)
      then show ?thesis using outcome unfolding main run by (cases x) auto
    next
      case (Undefined m)
      with outcome run obtain es1 e es2 s1 where bad: "es = es1 @ e # es2"
        "loop_run (server_step L) es1 (listening portNum s) = (Ret (), s1)" "clobbered s1 e" by auto
      show ?thesis unfolding main Undefined finish_main.simps prod.case process_end.case server_run_loop
        by (intro disjI2 exI conjI) (rule s, rule bad(1), rule bad(2), rule bad(3))
    qed (use outcome in \<open>auto simp: main run peer_assertions_def\<close>)
  qed
qed (simp add: server_main_def)

theorem server_main_outcomes_witness:
  "case server_main wire_lib (\<lambda>_. no_error) [''80''] [AcceptDone no_error] of
      (Running, s) \<Rightarrow> server_inv s
    | (Exit n, s) \<Rightarrow> n = 0 \<and> (\<exists>ec s'. failed ec \<and> s = s'\<lparr>sv_log := logError_line (caught_text wire_lib ec) (sv_log s')\<rparr>)
    | (Terminate x, s) \<Rightarrow> peer_exn x \<and> (\<forall>ec. x \<noteq> SystemError ec)
    | (Abort m, s) \<Rightarrow> m \<in> {''_deserFramePrefixCache.type() == proto::FramePrefix::ECHO'',
         ''echoMessage->type() == proto::ChatMessage::ECHO_REQUEST''}
    | (UndefinedBehaviour m, s) \<Rightarrow> port_argument DEFAULT_PORT [''80''] = None \<or>
        (\<exists>portNum s0 es1 e es2 s1. AsyncTcpServer_ctor wire_lib (\<lambda>_. no_error) portNum True initial_server = (Ret (), s0) \<and>
           [AcceptDone no_error] = es1 @ e # es2 \<and> server_run wire_lib es1 (listening portNum s0) = (Ret (), s1) \<and> clobbered s1 e)"
proof (rule server_main_outcomes [OF wire.protobuf_axioms])
  fix portNum s
  assume "AsyncTcpServer_ctor wire_lib (\<lambda>_. no_error) portNum True initial_server = (Ret (), s)"
  then have "server_inv s" by (rule wire.ctor_inv)
  then show "loop_ok (server_step wire_lib) event_ok [AcceptDone no_error] (listening portNum s)"
    by (auto simp: server_inv_def listening_def simp del: server_step.simps split: prod.splits outcome.splits)
qed simp

end
