(* ===== verification/Echo_Session.thy ===== *)
theory Echo_Session
  imports Server
begin

text \<open>
  Sessions of the server: what its clients receive over several events, and how operations of one
  connection interfere. \<open>sent_to\<close> collects the bytes that reach a client.
\<close>

subsection \<open>The bytes a client receives\<close>

text \<open>A write puts its data on the socket when it completes.\<close>

fun written :: "ref \<Rightarrow> server_event \<Rightarrow> server \<Rightarrow> string" where
  "written r (SendDone r' ec n) s =
     (if r' \<noteq> r then []
      else case map_of (sv_connections s) r of
             None \<Rightarrow> []
           | Some c \<Rightarrow> (case tc_pendingWrites c of [] \<Rightarrow> [] | op # ops \<Rightarrow> take n (wo_data op)))"
| "written r (AcceptDone ec) s = []"
| "written r (ReadDone r' e) s = []"

fun sent_to :: "extlib \<Rightarrow> ref \<Rightarrow> server_event list \<Rightarrow> server \<Rightarrow> string" where
  "sent_to L r [] s = []"
| "sent_to L r (e # es) s =
     written r e s @ (case server_step L e s of (Ret u, s') \<Rightarrow> sent_to L r es s' | _ \<Rightarrow> [])"

lemma server_run_append:
  "server_run L (es @ es') s = andThen (server_run L es s) (\<lambda>_. server_run L es')"
proof (induction es arbitrary: s)
  case (Cons e es)
  then show ?case
    by (cases "server_step L e s", case_tac a) simp_all
qed simp

lemma sent_to_append:
  "server_run L es s = (Ret (), s') \<Longrightarrow> sent_to L r (es @ es') s = sent_to L r es s @ sent_to L r es' s'"
  by (induction es arbitrary: s) (auto simp: andThen_eq_Ret)

lemma sent_to_reads [simp]: "sent_to L r (map (ReadDone r') es) s = []"
  by (induction es arbitrary: s) (auto split: prod.splits outcome.splits)

subsection \<open>Reads of one connection\<close>

lemma update_twice: "AList.update r x (AList.update r y xs) = AList.update r x xs"
  by (induction xs) auto

text \<open>A sequence of completed reads of a connection is that sequence on the connection alone.\<close>

lemma server_run_reads:
  assumes "map_of (sv_connections s) r = Some c" and "conn_reads L es (c, sv_log s) = (res, (c', lw'))"
  shows "server_run L (map (ReadDone r) es) s =
    (res, s\<lparr>sv_connections := AList.update r c' (sv_connections s), sv_log := lw'\<rparr>)"
  using assms
proof (induction es arbitrary: s c)
  case Nil
  then show ?case by (auto simp: update_triv)
next
  case (Cons e es)
  obtain res1 c1 lw1 where e: "TcpConnection_onRead L e (c, sv_log s) = (res1, (c1, lw1))"
    by (cases "TcpConnection_onRead L e (c, sv_log s)") auto
  let ?s1 = "s\<lparr>sv_connections := AList.update r c1 (sv_connections s), sv_log := lw1\<rparr>"
  have step: "server_step L (ReadDone r e) s = (res1, ?s1)"
    using on_conn_Some [OF Cons.prems(1), of "TcpConnection_onRead L e", OF e] by simp
  show ?case
  proof (cases res1)
    case (Ret u)
    have "map_of (sv_connections ?s1) r = Some c1" by (simp add: update_conv)
    from Cons.IH [OF this] Cons.prems(2) step e Ret show ?thesis by (simp add: update_twice)
  qed (use Cons.prems step e in \<open>auto simp del: server_step.simps\<close>)
qed

subsection \<open>One exchange\<close>

text \<open>The client sends a request and the answer is written.\<close>

definition exchange :: "extlib \<Rightarrow> ref \<Rightarrow> ChatMessage \<Rightarrow> server_event list" where
  "exchange L r m = map (ReadDone r) (frame_events L (chat_body L m)) @
     [SendDone r no_error (length (frame L (chat_body L (echo_response m))))]"

definition serving :: "ref \<Rightarrow> server \<Rightarrow> bool" where
  "serving r s \<longleftrightarrow> (\<exists>c. map_of (sv_connections s) r = Some c \<and> await_frame c \<and> conn_idle c \<and>
     tc_handler c = EchoClientHandler)"

lemma busy_server_serving: "serving 0 busy_server"
  using idle_connection_ok [of 0] by (simp add: serving_def busy_server_def idle_connection_def)

lemma await_frame_written:
  assumes "await_frame c"
  shows "await_frame (c\<lparr>tc_pendingWrites := [], tc_writeInProgress := False\<rparr>)"
    and "conn_idle (c\<lparr>tc_pendingWrites := [], tc_writeInProgress := False\<rparr>)"
  using assms by (simp_all add: await_frame_def conn_running_def conn_inv_def send_inv_def conn_idle_def)

text \<open>The completion of a write with all its bytes.\<close>

lemma send_done_serving:
  assumes "map_of (sv_connections s) r = Some c" and "await_frame c" and "tc_handler c = EchoClientHandler"
    and "tc_pendingWrites c = [\<lparr>wo_data = F, wo_intact = True\<rparr>]"
  shows "\<exists>s'. server_step L (SendDone r no_error (length F)) s = (Ret (), s') \<and> serving r s' \<and>
    sent_to L r [SendDone r no_error (length F)] s = F"
proof -
  from onWrite_eq [OF assms(1,3,4), of no_error "length F"] obtain lw' where
    w: "TcpConnection_onWrite no_error (length F) r s = (Ret (), s\<lparr>sv_connections := AList.update r
      (c\<lparr>tc_pendingWrites := [], tc_writeInProgress := False\<rparr>) (sv_connections s), sv_log := lw'\<rparr>)" by auto
  with await_frame_written [OF assms(2)] assms(3)
  have "serving r (snd (TcpConnection_onWrite no_error (length F) r s))" by (simp add: serving_def update_conv)
  with w assms(1,4) show ?thesis by simp
qed

text \<open>A body that parses as a request, whatever bytes it has, and the answer an idle connection gives.\<close>

definition request_body :: "extlib \<Rightarrow> string \<Rightarrow> ChatMessage \<Rightarrow> bool" where
  "request_body L body m \<longleftrightarrow> framable body \<and> length body \<le> MAX_READ_BUFFER_SIZE_BYTES \<and>
     pb_ChatMessage_ParseFromArray L body (int (length body)) = Some m \<and> cm_type m = ChatMessage_ECHO_REQUEST \<and>
     length (cm_text m) + length (cm_unknown m) + 23 < 2 ^ 31"

lemma conn_reads_request_body:
  assumes "protobuf L utf8" and "await_frame c" and "conn_idle c" and "request_body L body m"
  obtains c' lw' where "conn_reads L (frame_events L body) (c, lw) = (Ret (), (c', lw'))"
    and "tc_pendingWrites c' = [\<lparr>wo_data = frame L (chat_body L (echo_response m)), wo_intact = True\<rparr>]"
    and "await_frame c'" and "tc_handler c' = tc_handler c"
proof -
  let ?F = "frame L (chat_body L (echo_response m))" and ?lw = "log_line ''DBG: handle Echo receive server'' lw"
  let ?c = "c\<lparr>tc_protocol := noted body (tc_protocol c)\<rparr>"
  let ?c1 = "?c\<lparr>tc_protocol := (tc_protocol ?c)\<lparr>serFramePrefixCache := ECHO_prefix (chat_body L (echo_response m))\<rparr>\<rparr>"
  define r where "r = TcpConnection_send ?F (?c1, ?lw)"
  have b: "framable body" "length body \<le> MAX_READ_BUFFER_SIZE_BYTES" "cm_type m = ChatMessage_ECHO_REQUEST"
    "length (cm_text m) + length (cm_unknown m) + 23 < 2 ^ 31" using assms(4) by (simp_all add: request_body_def)
  have inv: "Protocol_inv (tc_protocol ?c)"
    using assms(2) by (simp add: await_frame_def conn_running_def conn_inv_def Protocol_inv_def noted_def)
  have "deserialize L body (int (length body)) (tc_protocol ?c) = (Ret (MChatMessage m), tc_protocol ?c)"
    using assms(4) by (simp add: request_body_def deserialize_def)
  then have h: "TcpConnection_handleRead L body (?c, lw) = (Ret (), r)"
    using protobuf.handleServer_request [where proto_of = tc_protocol and c = ?c, OF assms(1) b(3,4) inv,
        of TcpConnection_set_protocol TcpConnection_send lw]
    by (simp add: TcpConnection_handleRead_def TcpConnection_set_protocol_def r_def)
  have "conn_idle ?c1" using assms(3) by (simp add: conn_idle_def)
  note idle = conn_sender.send_idle [OF this, of ?F ?lw]
  have await: "await_frame ?c1" using assms(2) await_frame_protocol [of c "tc_protocol ?c1"] by (simp add: noted_def)
  show thesis
  proof (rule that [of "fst r" "snd r"])
    show "conn_reads L (frame_events L body) (c, lw) = (Ret (), (fst r, snd r))"
      using protobuf.conn_reads_frame [OF assms(1,2) b(1,2), of lw] h by simp
    show "tc_pendingWrites (fst r) = [\<lparr>wo_data = ?F, wo_intact = True\<rparr>]" using idle by (simp add: r_def)
    show "await_frame (fst r)" using await_frame_send [OF await, of ?F ?lw] by (simp add: r_def)
    show "tc_handler (fst r) = tc_handler c" by (simp add: r_def)
  qed
qed

lemma request_body_answered:
  assumes "protobuf L utf8" and "serving r s" and "request_body L body m" and "F = frame L (chat_body L (echo_response m))"
    and "es = map (ReadDone r) (frame_events L body) @ [SendDone r no_error (length F)]"
  shows "\<exists>s'. server_run L es s = (Ret (), s') \<and> serving r s' \<and> sent_to L r es s = F"
proof -
  let ?reads = "map (ReadDone r) (frame_events L body)"
  obtain c where c: "map_of (sv_connections s) r = Some c" "await_frame c" "conn_idle c" "tc_handler c = EchoClientHandler"
    using assms(2) by (auto simp: serving_def)
  obtain c' lw' where r: "conn_reads L (frame_events L body) (c, sv_log s) = (Ret (), (c', lw'))"
    "tc_pendingWrites c' = [\<lparr>wo_data = F, wo_intact = True\<rparr>]" "await_frame c'" "tc_handler c' = EchoClientHandler"
    using conn_reads_request_body [OF assms(1) c(2,3) assms(3), of "sv_log s"] c(4) assms(4) by metis
  let ?s1 = "s\<lparr>sv_connections := AList.update r c' (sv_connections s), sv_log := lw'\<rparr>"
  have run: "server_run L ?reads s = (Ret (), ?s1)" by (rule server_run_reads [OF c(1) r(1)])
  have "map_of (sv_connections ?s1) r = Some c'" by (simp add: update_conv)
  from send_done_serving [OF this r(3,4,2), of L] obtain s' where
    "server_step L (SendDone r no_error (length F)) ?s1 = (Ret (), s')" "serving r s'"
    "sent_to L r [SendDone r no_error (length F)] ?s1 = F" by blast
  then show ?thesis
    by (simp add: assms(5) server_run_append sent_to_append [OF run] run del: server_step.simps)
qed

lemma fitting_request_body:
  assumes "protobuf L utf8" and "echo_request utf8 m"
  shows "request_body L (chat_body L m) m"
proof -
  have m: "chat_fits utf8 m" using assms(2) by (simp add: echo_request_def)
  note b = protobuf.fitting_body [OF assms(1) m]
  have "pb_ChatMessage_ParseFromArray L (chat_body L m @ []) (int (length (chat_body L m))) = Some m"
    using m by (intro protobuf.chat_parse [OF assms(1) b(1)]) (simp_all add: chat_fits_def)
  with b echo_request_answer [OF assms(2)] show ?thesis by (simp add: request_body_def)
qed

lemma exchange_run:
  assumes "protobuf L utf8" and "serving r s" and "echo_request utf8 m"
  shows "\<exists>s'. server_run L (exchange L r m) s = (Ret (), s') \<and> serving r s' \<and>
    sent_to L r (exchange L r m) s = frame L (chat_body L (echo_response m))"
  by (rule request_body_answered [OF assms(1,2) fitting_request_body [OF assms(1,3)] refl exchange_def])

lemma exchanges_run:
  assumes "protobuf L utf8" and "\<forall>m \<in> set ms. echo_request utf8 m"
  shows "serving r s \<Longrightarrow> \<exists>s'. server_run L (concat (map (exchange L r) ms)) s = (Ret (), s') \<and> serving r s' \<and>
    sent_to L r (concat (map (exchange L r) ms)) s = concat (map (\<lambda>m. frame L (chat_body L (echo_response m))) ms)"
  using assms(2)
proof (induction ms arbitrary: s)
  case (Cons m ms)
  from exchange_run [OF assms(1) Cons.prems(1), of m] Cons.prems(2) obtain s1
    where s1: "server_run L (exchange L r m) s = (Ret (), s1)" "serving r s1"
      "sent_to L r (exchange L r m) s = frame L (chat_body L (echo_response m))" by auto
  from Cons.IH [OF s1(2)] Cons.prems(2) show ?case
    by (auto simp: server_run_append s1(1,3) sent_to_append [OF s1(1)])
qed simp

subsection \<open>Isolation\<close>

lemma isolated_step:
  assumes "server_inv s" and "e = ReadDone r x \<or> e = SendDone r ec n" and "r' \<noteq> r"
  shows "map_of (sv_connections (snd (server_step L e s))) r' = map_of (sv_connections s) r'"
proof (cases "e = ReadDone r x")
  case True
  then show ?thesis using assms(3) by simp
next
  case False
  then have e: "e = SendDone r ec n" using assms(2) by simp
  show ?thesis
  proof (cases "map_of (sv_connections s) r")
    case (Some c)
    note c = server_invD [OF assms(1) Some]
    show ?thesis
    proof (cases "tc_pendingWrites c")
      case (Cons op ops)
      then have "conn_running c" using c conn_fresh_no_ops [of c] by auto
      then have ops: "ops = []" using Cons by (rule conn_running_written(1))
      show ?thesis
      proof (cases "wo_intact op")
        case True
        with onWrite_eq [OF Some, of op ec n] c Cons ops assms(3) e show ?thesis by (auto simp: update_conv)
      qed (use Some Cons e assms(3) in \<open>simp add: TcpConnection_onWrite_def on_conn_def update_conv\<close>)
    qed (use Some e assms(3) in \<open>simp add: TcpConnection_onWrite_def on_conn_def update_conv\<close>)
  qed (simp add: e TcpConnection_onWrite_def on_conn_def)
qed

subsection \<open>Properties\<close>

text \<open>
  C16. A whole session: a client that is accepted and sends its requests one at a time receives the
  frame of the welcome message and then, request by request and in order, the frame of the same
  message as an echo response, and nothing else; the server is then ready for the next request.
\<close>

theorem echo_session:
  assumes "protobuf L utf8" and "server_inv s" and "Suc (sv_nextRef s) < 2 ^ 64" and "sv_accepting s = [r]"
    and "\<forall>m \<in> set ms. echo_request utf8 m"
    and "es = AcceptDone no_error # SendDone r no_error (length (frame L (chat_body L welcome_message))) #
        concat (map (exchange L r) ms)"
  shows "\<exists>s'. server_run L es s = (Ret (), s') \<and> serving r s' \<and>
    sent_to L r es s = frame L (chat_body L welcome_message) @
      concat (map (\<lambda>m. frame L (chat_body L (m\<lparr>cm_type := ChatMessage_ECHO_RESPONSE\<rparr>))) ms)"
proof -
  let ?W = "frame L (chat_body L welcome_message)" and ?xs = "concat (map (exchange L r) ms)"
  from protobuf.server_accept_step [OF assms(1-4), of no_error] obtain s1 c1 where
    s1: "server_step L (AcceptDone no_error) s = (Ret (), s1)" "server_inv s1" "map_of (sv_connections s1) r = Some c1"
      "await_frame c1" "tc_pendingWrites c1 = [\<lparr>wo_data = ?W, wo_intact = True\<rparr>]" by auto
  have "tc_handler c1 = EchoClientHandler" using server_invD [OF s1(2,3)] by blast
  from send_done_serving [OF s1(3,4) this s1(5), of L] obtain s2 where
    s2: "server_step L (SendDone r no_error (length ?W)) s1 = (Ret (), s2)" "serving r s2"
      "sent_to L r [SendDone r no_error (length ?W)] s1 = ?W" by blast
  have w: "written r (SendDone r no_error (length ?W)) s1 = ?W" using s1(3,5) by simp
  from exchanges_run [OF assms(1,5) s2(2)] obtain s3 where
    s3: "server_run L ?xs s2 = (Ret (), s3)" "serving r s3"
      "sent_to L r ?xs s2 = concat (map (\<lambda>m. frame L (chat_body L (echo_response m))) ms)" by blast
  show ?thesis unfolding assms(6)
    by (simp add: s1(1) s2(1) s3 w del: server_step.simps written.simps(1)) (simp add: echo_response_def)
qed

theorem echo_session_witness:
  "\<exists>es s'. server_run wire_lib es busy_server = (Ret (), s') \<and> serving 1 s' \<and>
    sent_to wire_lib 1 es busy_server = frame wire_lib (chat_body wire_lib welcome_message) @
      concat (map (\<lambda>m. frame wire_lib (chat_body wire_lib (m\<lparr>cm_type := ChatMessage_ECHO_RESPONSE\<rparr>)))
        [sample_request, sample_request])"
proof -
  have b: "Suc (sv_nextRef busy_server) < 2 ^ 64" "sv_accepting busy_server = [1]" by (simp_all add: busy_server_def)
  have "\<forall>m \<in> set [sample_request, sample_request]. echo_request valid_utf8 m" using sample_request_ok by simp
  from echo_session [OF wire.protobuf_axioms busy_server_inv b this refl] show ?thesis by blast
qed

text \<open>
  A request that arrives while an earlier message is still being written corrupts that write.
  \<^verbatim>\<open>TcpConnection::send\<close> replaces \<^verbatim>\<open>_sendMsg\<close> before it looks at the flag: the answer is
  dropped with a log entry, the buffer Asio is reading from is gone, and the completion of the
  earlier write, which Asio may deliver at any time, is undefined.
\<close>

lemma request_during_write_corrupts:
  assumes "protobuf L utf8" and "map_of (sv_connections s) r = Some c" and "await_frame c"
    and "tc_writeInProgress c" and "tc_pendingWrites c = [op]" and "echo_request utf8 m"
  shows "\<exists>s'. server_run L (map (ReadDone r) (frame_events L (chat_body L m))) s = (Ret (), s') \<and>
    sv_log s' = logError_line ''Connection::doSend err: Write operation initialized when another is in progress''
      (log_line ''DBG: handle Echo receive server'' (sv_log s)) \<and>
    event_ok s' (SendDone r no_error (length (wo_data op))) \<and>
    fst (server_step L (SendDone r ec n) s') = Undefined ''the buffer of async_write was modified''"
proof -
  let ?F = "frame L (chat_body L (echo_response m))" and ?lw = "log_line ''DBG: handle Echo receive server'' (sv_log s)"
  let ?lw' = "logError_line ''Connection::doSend err: Write operation initialized when another is in progress'' ?lw"
  let ?c' = "(answering L m c)\<lparr>tc_sendMsg := ?F, tc_pendingWrites := [op\<lparr>wo_intact := False\<rparr>]\<rparr>"
  let ?s' = "s\<lparr>sv_connections := AList.update r ?c' (sv_connections s), sv_log := ?lw'\<rparr>"
  have "TcpConnection_send ?F (answering L m c, ?lw) = (?c', ?lw')"
    using assms(4,5) by (simp add: answering_def TcpConnection_send_def TcpConnection_doSend_def clobber_def)
  then have "conn_reads L (frame_events L (chat_body L m)) (c, sv_log s) = (Ret (), (?c', ?lw'))"
    using conn_reads_request(1) [OF assms(1,3,6), of "sv_log s"] by simp
  from server_run_reads [OF assms(2) this]
  have "server_run L (map (ReadDone r) (frame_events L (chat_body L m))) s = (Ret (), ?s')" .
  moreover have "event_ok ?s' (SendDone r no_error (length (wo_data op)))"
    by (simp add: update_conv asio_write_contract_def)
  moreover have "fst (server_step L (SendDone r ec n) ?s') = Undefined ''the buffer of async_write was modified''"
    by (simp add: update_conv TcpConnection_onWrite_def on_conn_def)
  ultimately show ?thesis by (intro exI [of _ ?s']) simp
qed



text \<open>
  C36. The debugging handler destroys its own connection under a pending read:
  \<^verbatim>\<open>TestClientHandler\<close> closes the connection when its message has been written, the manager
  destroys it, and the read that \<^verbatim>\<open>start\<close> left outstanding then completes on a destroyed object.
\<close>

theorem test_handler_leaves_dangling_read:
  assumes "manager_inv s" and c: "map_of (sv_connections s) r = Some c" and "tc_handler c = TestClientHandler"
    and "tc_pendingWrites c = [op]" and "wo_intact op" and "pendingReads (tc_reader c) \<noteq> []"
  shows "\<exists>s'. server_step L (SendDone r ec n) s = (Ret (), s') \<and> r \<notin> set (refs s') \<and>
    event_ok s' (ReadDone r e) \<and> fst (server_step L (ReadDone r e) s') = Undefined ''use of a destroyed connection''"
proof -
  let ?c = "c\<lparr>tc_pendingWrites := [], tc_writeInProgress := False\<rparr>"
  define lw where "lw = (if failed ec then logError_line (''Connection::_handleWrite err: '' @ show_error_code ec) (sv_log s)
    else log_line ''handleWrite'' (sv_log s))"
  let ?s = "s\<lparr>sv_connections := AList.update r ?c (sv_connections s), sv_log := lw\<rparr>"
  have look: "map_of (sv_connections ?s) r = Some ?c" by (simp add: update_conv)
  have step: "server_step L (SendDone r ec n) s = TcpConnection_close r ?s"
    using assms(3-5) by (simp add: TcpConnection_onWrite_def TcpConnection_handleWrite_def on_conn_def c update_conv
        update_twice lw_def)
  have "manager_inv ?s" by (rule manager_inv_update [OF assms(1) c]) simp
  from TcpConnection_close_removes [OF this look] obtain s' where
    s': "TcpConnection_close r ?s = (Ret (), s')" "r \<notin> set (refs s')" by blast
  have gone: "map_of (sv_connections s') r = None" using s'(2) map_of_refs [of s' r] by simp
  have "r \<in> set (sv_orphans s')" using assms(6) by (intro close_orphans [OF look _ s'(1)]) (simp add: has_pending_def)
  with s' step gone show ?thesis by (intro exI [of _ s']) (simp add: on_conn_def)
qed

theorem test_handler_leaves_dangling_read_witness:
  "\<exists>s'. server_step wire_lib (SendDone 0 no_error 1)
      (sample_server\<lparr>sv_connections := [(0, (idle_connection 0)\<lparr>tc_handler := TestClientHandler, tc_writeInProgress := True,
         tc_pendingWrites := [\<lparr>wo_data = ''x'', wo_intact = True\<rparr>]\<rparr>)]\<rparr>) = (Ret (), s') \<and> 0 \<notin> set (refs s') \<and>
    event_ok s' (ReadDone 0 (asio_eof wire_lib, 0, [])) \<and>
    fst (server_step wire_lib (ReadDone 0 (asio_eof wire_lib, 0, [])) s') = Undefined ''use of a destroyed connection''"
  by (rule test_handler_leaves_dangling_read [where op = "\<lparr>wo_data = ''x'', wo_intact = True\<rparr>" and
        c = "(idle_connection 0)\<lparr>tc_handler := TestClientHandler, tc_writeInProgress := True,
         tc_pendingWrites := [\<lparr>wo_data = ''x'', wo_intact = True\<rparr>]\<rparr>"])
    (simp_all add: sample_server_def manager_inv_def refs_def ids_def idle_connection_def)

text \<open>
  A client can terminate the server with one malformed message: if the body of a frame does not
  parse as a chat message, for instance because its text is not valid UTF-8, the exception is not one
  that \<^verbatim>\<open>main\<close> catches and the process is terminated with every connection.
\<close>

lemma malformed_message_terminates_server:
  assumes "protobuf L utf8" and "map_of (sv_connections s) r = Some c" and "await_frame c" and "framable body"
    and "length body \<le> MAX_READ_BUFFER_SIZE_BYTES" and "pb_ChatMessage_ParseFromArray L body (int (length body)) = None"
  shows "fst (finish_main L (server_run L (map (ReadDone r) (frame_events L body) @ es) s)) =
    Terminate (RuntimeError ''Wrong chat message format. Parse failed'')"
proof -
  let ?c = "c\<lparr>tc_protocol := noted body (tc_protocol c)\<rparr>"
  have "TcpConnection_handleRead L body (?c, sv_log s) =
      (Throw (RuntimeError ''Wrong chat message format. Parse failed''), (?c, sv_log s))"
    using assms(6) by (simp add: TcpConnection_handleRead_def deserialize_def)
  with protobuf.conn_reads_frame [OF assms(1,3-5), of "sv_log s"]
  have "conn_reads L (frame_events L body) (c, sv_log s) =
      (Throw (RuntimeError ''Wrong chat message format. Parse failed''), (?c, sv_log s))" by simp
  from server_run_reads [OF assms(2) this] show ?thesis by (simp add: server_run_append)
qed

end
