(* ===== verification/Simulation.thy ===== *)
theory Simulation
  imports Main
begin

text \<open>
  Labelled transition systems: runs, invariants, and forward simulation. A system is a step relation
  \<open>step s e s'\<close>; a run carries the list of its labels. The locale \<open>invariant_of\<close> is the contract of an
  inductive invariant, \<open>terminating\<close> that of steps which descend, \<open>forward_simulation\<close> that of an implementation whose steps an abstract system
  can follow with labels that explain them.
\<close>

inductive run_of :: "('s \<Rightarrow> 'e \<Rightarrow> 's \<Rightarrow> bool) \<Rightarrow> 's \<Rightarrow> 'e list \<Rightarrow> 's \<Rightarrow> bool" for step where
  stop: "run_of step s [] s"
| go: "step s e s' \<Longrightarrow> run_of step s' es s'' \<Longrightarrow> run_of step s (e # es) s''"

inductive_cases run_of_NilE: "run_of step s [] s'"
inductive_cases run_of_ConsE: "run_of step s (e # es) s''"

lemma run_of_append: "run_of step s es s' \<Longrightarrow> run_of step s' es' s'' \<Longrightarrow> run_of step s (es @ es') s''"
  by (induction rule: run_of.induct) (auto intro: run_of.go)

subsection \<open>Invariants\<close>

locale invariant_of =
  fixes step :: "'s \<Rightarrow> 'e \<Rightarrow> 's \<Rightarrow> bool"
    and good :: "'s \<Rightarrow> bool"
  assumes step_good: "good s \<Longrightarrow> step s e s' \<Longrightarrow> good s'"
begin

lemma run_good: "run_of step s es s' \<Longrightarrow> good s \<Longrightarrow> good s'"
  by (induction rule: run_of.induct) (auto intro: step_good)

end

lemma run_of_mono:
  "run_of step s es s' \<Longrightarrow> (\<And>s e s'. step s e s' \<Longrightarrow> step' s e s') \<Longrightarrow> run_of step' s es s'"
  by (induction rule: run_of.induct) (auto intro: run_of.intros)

subsection \<open>Termination\<close>

text \<open>Steps that descend in a well-founded relation: every run is finite and can be continued to rest.\<close>

locale terminating = invariant_of +
  fixes below :: "('a \<times> 'a) set"
  assumes wf_below: "wf below"
    and step_below: "good s \<Longrightarrow> step s e s' \<Longrightarrow> (s', s) \<in> below"
begin

lemma no_infinite_run:
  assumes "good (f 0)"
  shows "\<not> (\<forall>i. step (f i) (es i) (f (Suc i)))"
proof
  assume steps: "\<forall>i. step (f i) (es i) (f (Suc i))"
  have "good (f i)" for i
    by (induction i) (use assms steps step_good in blast)+
  with steps step_below have "\<forall>i. (f (Suc i), f i) \<in> below" by blast
  with wf_below show False by (auto simp: wf_iff_no_infinite_down_chain)
qed

lemma comes_to_rest:
  "good s \<Longrightarrow> \<exists>es s'. run_of step s es s' \<and> (\<forall>e s''. \<not> step s' e s'')"
proof (induction s rule: wf_induct_rule [OF wf_below])
  case (1 s)
  show ?case
  proof (cases "\<exists>e s'. step s e s'")
    case True
    then obtain e s' where "step s e s'" by blast
    with 1(1) [OF step_below] step_good 1(2) show ?thesis by (meson run_of.go)
  qed (auto intro: run_of.stop)
qed

end

subsection \<open>Forward simulation\<close>

locale forward_simulation =
  fixes cstep :: "'s \<Rightarrow> 'e \<Rightarrow> 's \<Rightarrow> bool"
    and astep :: "'a \<Rightarrow> 'l \<Rightarrow> 'a \<Rightarrow> bool"
    and rel :: "'s \<Rightarrow> 'a \<Rightarrow> bool"
    and explains :: "'l \<Rightarrow> 'e \<Rightarrow> bool"
  assumes sim_step: "rel s a \<Longrightarrow> cstep s e s' \<Longrightarrow> \<exists>l a'. astep a l a' \<and> explains l e \<and> rel s' a'"
begin

lemma trace_inclusion:
  "run_of cstep s es s' \<Longrightarrow> rel s a \<Longrightarrow>
     \<exists>ls a'. run_of astep a ls a' \<and> list_all2 explains ls es \<and> rel s' a'"
proof (induction arbitrary: a rule: run_of.induct)
  case (stop s)
  then show ?case by (auto intro: run_of.stop)
next
  case (go s e s' es s'')
  from sim_step [OF go.prems go.hyps(1)] obtain l a1
    where a1: "astep a l a1" "explains l e" "rel s' a1" by blast
  from go.IH [OF a1(3)] obtain ls a' where "run_of astep a1 ls a'" "list_all2 explains ls es" "rel s'' a'" by blast
  with a1 show ?case by (intro exI [of _ "l # ls"] exI [of _ a']) (auto intro: run_of.go)
qed

end

end
