(* ===== verification/Echo_Spec.thy ===== *)
theory Echo_Spec
  imports Echo_Session Simulation
begin

text \<open>
  The service the server promises, as a small abstract system, and the proof that the server refines
  it. A client of the abstract service is absent, idle, being answered with a message, or broken, which
  it is from the moment a request arrives while its previous answer is still being written. The
  server's side of a step is what can be observed at the sockets: an accepted connection, a received
  message, the bytes of a completed write.
\<close>

subsection \<open>The abstract service\<close>

datatype session = Idle | Answering ChatMessage | Broken

type_synonym service = "ref \<rightharpoonup> session"

datatype service_label =
    Joined ref
  | Asked ref ChatMessage
  | Overrun ref ChatMessage
  | Delivered ref ChatMessage
  | Lost ref ChatMessage
  | Internal

inductive service_step :: "service \<Rightarrow> service_label \<Rightarrow> service \<Rightarrow> bool" where
  joined: "a r = None \<Longrightarrow> service_step a (Joined r) (a(r \<mapsto> Answering welcome_message))"
| asked: "a r = Some Idle \<Longrightarrow> cm_type m = ChatMessage_ECHO_REQUEST \<Longrightarrow>
    service_step a (Asked r m) (a(r \<mapsto> Answering (echo_response m)))"
| overrun: "a r = Some x \<Longrightarrow> x \<noteq> Idle \<Longrightarrow> cm_type m = ChatMessage_ECHO_REQUEST \<Longrightarrow>
    service_step a (Overrun r m) (a(r \<mapsto> Broken))"
| delivered: "a r = Some (Answering m) \<Longrightarrow> service_step a (Delivered r m) (a(r \<mapsto> Idle))"
| lost: "a r = Some (Answering m) \<Longrightarrow> service_step a (Lost r m) (a(r \<mapsto> Idle))"
| internal: "service_step a Internal a"

inductive_cases service_step_cases: "service_step a l a'"

text \<open>The messages a client has been sent, those it is owed, and the one on its way.\<close>

fun delivered_to :: "ref \<Rightarrow> service_label \<Rightarrow> ChatMessage list" where
  "delivered_to r (Delivered r' m) = (if r' = r then [m] else [])"
| "delivered_to r _ = []"

fun owed_to :: "ref \<Rightarrow> service_label \<Rightarrow> ChatMessage list" where
  "owed_to r (Joined r') = (if r' = r then [welcome_message] else [])"
| "owed_to r (Asked r' m) = (if r' = r then [echo_response m] else [])"
| "owed_to r (Overrun r' m) = (if r' = r then [echo_response m] else [])"
| "owed_to r _ = []"

fun loses :: "ref \<Rightarrow> service_label \<Rightarrow> bool" where
  "loses r (Lost r' m) = (r' = r)"
| "loses r _ = False"

fun on_its_way :: "session option \<Rightarrow> ChatMessage list" where
  "on_its_way (Some (Answering m)) = [m]"
| "on_its_way _ = []"

text \<open>Broken sessions stay broken.\<close>

interpretation broken: invariant_of service_step "\<lambda>a. a r = Some Broken"
  by unfold_locales (auto elim!: service_step_cases)

lemma service_step_conserves:
  assumes "service_step a l a'" and "\<not> loses r l" and "a' r \<noteq> Some Broken"
  shows "delivered_to r l @ on_its_way (a' r) = on_its_way (a r) @ owed_to r l"
  using assms by (cases rule: service_step.cases) (auto split: if_splits)

lemma service_conserves:
  "run_of service_step a ls a' \<Longrightarrow> \<forall>l \<in> set ls. \<not> loses r l \<Longrightarrow> a' r \<noteq> Some Broken \<Longrightarrow>
     concat (map (delivered_to r) ls) @ on_its_way (a' r) = on_its_way (a r) @ concat (map (owed_to r) ls)"
proof (induction rule: run_of.induct)
  case (go a l a1 ls a')
  then have "a1 r \<noteq> Some Broken" using broken.run_good by blast
  with go have "delivered_to r l @ on_its_way (a1 r) = on_its_way (a r) @ owed_to r l"
    by (intro service_step_conserves) simp_all
  moreover have "concat (map (delivered_to r) ls) @ on_its_way (a' r) = on_its_way (a1 r) @ concat (map (owed_to r) ls)"
    using go by simp
  ultimately show ?case unfolding list.map concat.simps by (rule conserve_append)
qed simp

subsection \<open>What can be observed of the server\<close>

datatype observation =
    Accepted ref
  | Received ref ChatMessage
  | Wrote ref string
  | WriteFailed ref
  | Quiet

text \<open>
  A completed read brings a message when the reader waits for one; the bytes of a message are the
  bytes the completion brings, since the buffer is empty in between.
\<close>

fun observed :: "extlib \<Rightarrow> server \<Rightarrow> server_event \<Rightarrow> observation" where
  "observed L s (AcceptDone ec) =
     (case sv_accepting s of r # rs \<Rightarrow> if failed ec then Quiet else Accepted r | [] \<Rightarrow> Quiet)"
| "observed L s (ReadDone r (ec, n, data)) =
     (case map_of (sv_connections s) r of
        Some c \<Rightarrow>
          (case pendingReads (tc_reader c) of
             (q, HandleReadProtoMessageFinished b) # ops \<Rightarrow>
               (case pb_ChatMessage_ParseFromArray L data (int (length data)) of
                  Some m \<Rightarrow> Received r m | None \<Rightarrow> Quiet)
           | _ \<Rightarrow> Quiet)
      | None \<Rightarrow> Quiet)"
| "observed L s (SendDone r ec n) =
     (if failed ec then WriteFailed r else Wrote r (written r (SendDone r ec n) s))"

text \<open>The transitions of the server that return, before the identity counter wraps.\<close>

definition server_trans :: "extlib \<Rightarrow> server \<Rightarrow> server_event \<times> observation \<Rightarrow> server \<Rightarrow> bool" where
  "server_trans L s eo s' \<longleftrightarrow>
     (case eo of (e, obs) \<Rightarrow>
       event_ok s e \<and> server_step L e s = (Ret (), s') \<and> sv_nextRef s' < 2 ^ 64 \<and> obs = observed L s e)"

fun appears :: "extlib \<Rightarrow> service_label \<Rightarrow> observation" where
  "appears L (Joined r) = Accepted r"
| "appears L (Asked r m) = Received r m"
| "appears L (Overrun r m) = Received r m"
| "appears L (Delivered r m) = Wrote r (frame L (chat_body L m))"
| "appears L (Lost r m) = WriteFailed r"
| "appears L Internal = Quiet"

subsection \<open>The simulation relation\<close>

fun represents :: "extlib \<Rightarrow> TcpConnection \<Rightarrow> session \<Rightarrow> bool" where
  "represents L c Idle = (tc_pendingWrites c = [])"
| "represents L c (Answering m) = (tc_pendingWrites c = [\<lparr>wo_data = frame L (chat_body L m), wo_intact = True\<rparr>])"
| "represents L c Broken = (\<exists>d. tc_pendingWrites c = [\<lparr>wo_data = d, wo_intact = False\<rparr>])"

fun conn_rel :: "extlib \<Rightarrow> TcpConnection option \<Rightarrow> session option \<Rightarrow> bool" where
  "conn_rel L None x = (x = None)"
| "conn_rel L (Some c) None = conn_fresh c"
| "conn_rel L (Some c) (Some x) = (conn_running c \<and> represents L c x)"

definition server_rel :: "extlib \<Rightarrow> server \<Rightarrow> service \<Rightarrow> bool" where
  "server_rel L s a \<longleftrightarrow> server_inv s \<and> (\<forall>r. conn_rel L (map_of (sv_connections s) r) (a r))"

text \<open>The accept of the invariant is the accept of an absent client; references beyond are absent, too.\<close>

lemma server_rel_absent:
  assumes "server_rel L s a"
  shows "sv_accepting s = [r] \<Longrightarrow> a r = None" and "map_of (sv_connections s) r = None \<Longrightarrow> a r = None"
proof -
  have rel: "conn_rel L (map_of (sv_connections s) r) (a r)" using assms by (simp add: server_rel_def)
  then show "map_of (sv_connections s) r = None \<Longrightarrow> a r = None" by simp
  assume "sv_accepting s = [r]"
  then obtain c where "map_of (sv_connections s) r = Some c" "conn_fresh c"
    using assms by (auto simp: server_rel_def server_inv_def)
  with rel show "a r = None" using conn_fresh_not_running by (cases "a r") auto
qed

lemma server_rel_present:
  assumes "server_rel L s a" and "map_of (sv_connections s) r = Some c" and "conn_running c"
  obtains x where "a r = Some x" and "represents L c x"
proof -
  have "conn_rel L (Some c) (a r)" using assms(1,2) by (metis server_rel_def)
  then show thesis using conn_fresh_not_running assms(3) by (cases "a r") (auto intro: that)
qed

context protobuf
begin

lemma sim_accept:
  assumes rel: "server_rel L s a" and step: "server_step L (AcceptDone ec) s = (Ret (), s')"
    and bound: "sv_nextRef s' < 2 ^ 64"
  shows "\<exists>l a'. service_step a l a' \<and> appears L l = observed L s (AcceptDone ec) \<and> server_rel L s' a'"
proof -
  have inv: "server_inv s" using rel by (simp add: server_rel_def)
  then obtain r where r: "sv_accepting s = [r]" by (auto simp: server_inv_def)
  have "Suc (sv_nextRef s) < 2 ^ 64" using nextRef_step [OF step] bound r by simp
  from server_accept_step [OF inv this r, of ec] step
  have s': "server_inv s'" "failed ec \<longrightarrow> map_of (sv_connections s') r = map_of (sv_connections s) r"
    and other: "\<forall>r'. r' \<noteq> r \<longrightarrow> r' \<noteq> sv_nextRef s \<longrightarrow> map_of (sv_connections s') r' = map_of (sv_connections s) r'"
    and new: "\<exists>cn. map_of (sv_connections s') (sv_nextRef s) = Some cn \<and> conn_fresh cn"
    and acc: "\<not> failed ec \<longrightarrow> (\<exists>c'. map_of (sv_connections s') r = Some c' \<and> await_frame c' \<and>
       tc_pendingWrites c' = [\<lparr>wo_data = frame L (chat_body L welcome_message), wo_intact = True\<rparr>])" by auto
  have rel': "conn_rel L (map_of (sv_connections s') r') (a r')" if "r' \<noteq> r \<or> failed ec" for r'
  proof (cases "r' = sv_nextRef s")
    case True
    have "sv_nextRef s \<notin> set (refs s)" using inv by (auto simp: server_inv_def manager_inv_def)
    then have "a r' = None" using server_rel_absent(2) [OF rel, of r'] map_of_refs [of s r'] True by simp
    with new True show ?thesis by auto
  next
    case False
    with other s'(2) that have "map_of (sv_connections s') r' = map_of (sv_connections s) r'" by (cases "r' = r") auto
    with rel show ?thesis by (simp add: server_rel_def)
  qed
  show ?thesis
  proof (cases "failed ec")
    case True
    then have "server_rel L s' a" using rel' s'(1) by (simp add: server_rel_def)
    with True r show ?thesis by (intro exI [of _ Internal] exI [of _ a]) (simp add: service_step.internal)
  next
    case False
    then have "server_rel L s' (a(r \<mapsto> Answering welcome_message))"
      using rel' s'(1) acc by (auto simp: server_rel_def await_frame_def)
    with False r service_step.joined [of a r] server_rel_absent(1) [OF rel r] show ?thesis
      by (intro exI [of _ "Joined r"] exI conjI) simp_all
  qed
qed

lemma sim_conn:
  assumes rel: "server_rel L s a" and inv: "server_inv s'"
    and conns: "sv_connections s' = AList.update r c' (sv_connections s)"
    and c': "conn_running c'" "represents L c' x"
  shows "server_rel L s' (a(r \<mapsto> x))"
  using rel inv c' by (auto simp: server_rel_def conns update_conv)

lemma sim_read:
  assumes rel: "server_rel L s a" and ok: "event_ok s (ReadDone r (ec, n, data))"
    and step: "server_step L (ReadDone r (ec, n, data)) s = (Ret (), s')" and inv': "server_inv s'"
  shows "\<exists>l a'. service_step a l a' \<and> appears L l = observed L s (ReadDone r (ec, n, data)) \<and> server_rel L s' a'"
proof -
  have inv: "server_inv s" using rel by (simp add: server_rel_def)
  from event_ok_conn(1) [OF inv ok] obtain c where c: "map_of (sv_connections s) r = Some c"
    and cok: "completion_ok (ec, n, data) (tc_reader c)" by blast
  note run = running_if_reading [OF inv c cok]
  obtain x where x: "a r = Some x" "represents L c x" by (rule server_rel_present [OF rel c run])
  obtain res c' lw' where onr: "TcpConnection_onRead L (ec, n, data) (c, sv_log s) = (res, (c', lw'))"
    by (cases "TcpConnection_onRead L (ec, n, data) (c, sv_log s)") auto
  have s': "res = Ret ()" "s' = s\<lparr>sv_connections := AList.update r c' (sv_connections s), sv_log := lw'\<rparr>"
    using on_conn_Some [OF c, of "TcpConnection_onRead L (ec, n, data)", OF onr] step by simp_all
  note sim = sim_conn [OF rel inv', of r c']
  have run': "conn_running c'" using onRead_step [OF run cok, of "sv_log s"] onr s'(1) by simp
  show ?thesis
  proof (cases rule: onRead_Ret [OF run cok onr [unfolded s'(1)]])
    case 1
    have "represents L c' x" using x(2) 1(2) by (cases x) simp_all
    from sim [OF _ run' this] s'(2) x(1) have "server_rel L s' a" by (simp add: fun_upd_idem)
    with 1(1) c show ?thesis by (intro exI [of _ Internal] exI [of _ a]) (simp add: await_prefix_def service_step.internal)
  next
    case (2 k m)
    have obs: "observed L s (ReadDone r (ec, n, data)) = Received r m" using c 2(1,2) by (simp add: await_message_def)
    show ?thesis
    proof (cases "x = Idle")
      case True
      with x(2) 2(4) have "represents L c' (Answering (echo_response m))" by simp
      from sim [OF _ run' this] s'(2) service_step.asked [of a r m] x(1) True 2(3) obs
      show ?thesis by (intro exI [of _ "Asked r m"] exI conjI) simp_all
    next
      case False
      with x(2) 2(4) have "represents L c' Broken" by (cases x) (auto simp: clobber_def)
      from sim [OF _ run' this] s'(2) service_step.overrun [of a r x m] x(1) False 2(3) obs
      show ?thesis by (intro exI [of _ "Overrun r m"] exI conjI) simp_all
    qed
  qed
qed

lemma sim_send:
  assumes rel: "server_rel L s a" and ok: "event_ok s (SendDone r ec n)"
    and step: "server_step L (SendDone r ec n) s = (Ret (), s')" and inv': "server_inv s'"
  shows "\<exists>l a'. service_step a l a' \<and> appears L l = observed L s (SendDone r ec n) \<and> server_rel L s' a'"
proof -
  have inv: "server_inv s" using rel by (simp add: server_rel_def)
  from event_ok_conn(2) [OF inv ok] obtain c op ops where c: "map_of (sv_connections s) r = Some c"
    and op: "tc_pendingWrites c = op # ops" "asio_write_contract op ec n" by blast
  have run: "conn_running c" using server_invD [OF inv c] conn_fresh_no_ops [of c] op(1) by auto
  obtain x where x: "a r = Some x" "represents L c x" by (rule server_rel_present [OF rel c run])
  have "wo_intact op" using clobbered_undefined [of s "SendDone r ec n" s'] step c op(1) by (auto simp: clobbered_def)
  with x(2) op(1) obtain m where m: "x = Answering m" "op = \<lparr>wo_data = frame L (chat_body L m), wo_intact = True\<rparr>"
    by (cases x) auto
  note written = conn_running_written [OF run op(1)]
  let ?c = "c\<lparr>tc_pendingWrites := [], tc_writeInProgress := False\<rparr>"
  obtain lw' where "s' = s\<lparr>sv_connections := AList.update r ?c (sv_connections s), sv_log := lw'\<rparr>"
    using onWrite_eq [OF c _ _ \<open>wo_intact op\<close>, of ec n] server_invD [OF inv c] op(1) written(1) step by auto
  with sim_conn [OF rel inv' _ written(2), of r Idle] have sim: "server_rel L s' (a(r \<mapsto> Idle))" by simp
  show ?thesis
  proof (cases "failed ec")
    case True
    with sim service_step.lost [of a r m] x(1) m(1) show ?thesis by (intro exI [of _ "Lost r m"] exI conjI) simp_all
  next
    case False
    then have "n = length (frame L (chat_body L m))" using op(2) m(2) by (simp add: asio_write_contract_def)
    then have "observed L s (SendDone r ec n) = Wrote r (frame L (chat_body L m))" using c op(1) m(2) False by simp
    with sim service_step.delivered [of a r m] x(1) m(1) show ?thesis
      by (intro exI [of _ "Delivered r m"] exI conjI) simp_all
  qed
qed

lemma server_simulation: "forward_simulation (server_trans L) service_step (server_rel L) (\<lambda>l eo. appears L l = snd eo)"
proof
  fix s a eo s'
  assume rel: "server_rel L s a" and "server_trans L s eo s'"
  then obtain e obs where e: "eo = (e, obs)" "event_ok s e" "server_step L e s = (Ret (), s')" "sv_nextRef s' < 2 ^ 64"
    "obs = observed L s e" by (auto simp: server_trans_def)
  have inv': "server_inv s'" using rel server_step_inv [OF _ e(2-4)] by (simp add: server_rel_def)
  have "\<exists>l a'. service_step a l a' \<and> appears L l = observed L s e \<and> server_rel L s' a'"
  proof (cases e)
    case (ReadDone r x)
    obtain ec n data where "x = (ec, n, data)" by (cases x)
    with ReadDone sim_read [OF rel _ _ inv', of r ec n data] e(2,3) show ?thesis by simp
  qed (use sim_accept [OF rel _ e(4)] sim_send [OF rel _ _ inv'] e(2,3) in blast)+
  with e(1,5) show "\<exists>l a'. service_step a l a' \<and> appears L l = snd eo \<and> server_rel L s' a'" by simp
qed

text \<open>The constructed server is the service without clients.\<close>

lemma ctor_rel:
  assumes "AsyncTcpServer_ctor L sys p reuse initial_server = (Ret (), s)"
  shows "server_rel L s (\<lambda>_. None)"
proof -
  note inv = ctor_inv [OF assms]
  obtain r0 c0 where r0: "sv_accepting s = [r0]" "map_of (sv_connections s) r0 = Some c0" "conn_fresh c0"
    using inv(1) by (auto simp: server_inv_def)
  have "conn_rel L (map_of (sv_connections s) r) None" for r
  proof (cases "map_of (sv_connections s) r")
    case (Some c)
    have "r' \<in> set (refs s) \<Longrightarrow> r' = 0" for r' using inv by (auto simp: server_inv_def manager_inv_def)
    with Some r0(2) have "r = r0" by (metis map_of_refs option.distinct(1))
    with Some r0 show ?thesis by simp
  qed simp
  with inv(1) show ?thesis by (simp add: server_rel_def)
qed

end

interpretation wire_service: forward_simulation "server_trans wire_lib" service_step "server_rel wire_lib"
  "\<lambda>l eo. appears wire_lib l = snd eo"
  by (rule wire.server_simulation)

subsection \<open>From the service back to the bytes\<close>

fun bytes_to :: "ref \<Rightarrow> observation \<Rightarrow> string" where
  "bytes_to r (Wrote r' bs) = (if r' = r then bs else [])"
| "bytes_to r _ = []"

text \<open>The messages a client is due: the welcome, and one response per message received from it.\<close>

fun due_to :: "ref \<Rightarrow> observation \<Rightarrow> ChatMessage list" where
  "due_to r (Accepted r') = (if r' = r then [welcome_message] else [])"
| "due_to r (Received r' m) = (if r' = r then [m\<lparr>cm_type := ChatMessage_ECHO_RESPONSE\<rparr>] else [])"
| "due_to r _ = []"

lemma appears_simps:
  "bytes_to r (appears L l) = concat (map (\<lambda>m. frame L (chat_body L m)) (delivered_to r l))"
  "due_to r (appears L l) = owed_to r l" "loses r l \<longleftrightarrow> appears L l = WriteFailed r"
  by (cases l; simp add: echo_response_def; fail)+

lemma appears_traces:
  assumes "list_all2 (\<lambda>l eo. appears L l = snd eo) ls es"
  shows "concat (map (\<lambda>eo. bytes_to r (snd eo)) es) =
      concat (map (\<lambda>m. frame L (chat_body L m)) (concat (map (delivered_to r) ls)))"
    and "concat (map (\<lambda>eo. due_to r (snd eo)) es) = concat (map (owed_to r) ls)"
    and "WriteFailed r \<notin> snd ` set es \<Longrightarrow> \<forall>l \<in> set ls. \<not> loses r l"
    and "map (appears L) ls = map snd es"
  using assms by (induction rule: list_all2_induct) (auto simp: appears_simps(1,2) [where L = L, symmetric] appears_simps(3) [where L = L])

lemma represents_pending:
  "represents L c x \<Longrightarrow> x \<noteq> Broken \<Longrightarrow>
     concat (map wo_data (tc_pendingWrites c)) = concat (map (\<lambda>m. frame L (chat_body L m)) (on_its_way (Some x)))"
  by (cases x) auto

text \<open>A client that joins and takes its welcome message.\<close>

lemma joining_run:
  assumes "protobuf L utf8" and "AsyncTcpServer_ctor L sys p reuse initial_server = (Ret (), s0)"
    and "F = frame L (chat_body L welcome_message)"
  shows "\<exists>s c. run_of (server_trans L) s0 [(AcceptDone no_error, Accepted 0), (SendDone 0 no_error (length F), Wrote 0 F)] s \<and>
    map_of (sv_connections s) 0 = Some c \<and> tc_pendingWrites c = [] \<and> serving 0 s"
proof -
  note inv = protobuf.ctor_inv [OF assms(1,2)]
  obtain r c where r: "sv_accepting s0 = [r]" "map_of (sv_connections s0) r = Some c"
    using inv(1) by (auto simp: server_inv_def)
  then have "r = 0" using inv map_of_refs [of s0 r] by (fastforce simp: server_inv_def manager_inv_def)
  note acc = r(1) [unfolded this]
  from protobuf.server_accept_step [OF assms(1) inv(1) _ acc, of no_error] inv(2) obtain s1 c1 where
    s1: "server_step L (AcceptDone no_error) s0 = (Ret (), s1)" "server_inv s1" "map_of (sv_connections s1) 0 = Some c1"
      "await_frame c1" "tc_pendingWrites c1 = [\<lparr>wo_data = F, wo_intact = True\<rparr>]" "sv_nextRef s1 = 2"
    by (auto simp: assms(3))
  have "tc_handler c1 = EchoClientHandler" using server_invD [OF s1(2,3)] by blast
  from send_done_serving [OF s1(3,4) this s1(5), of L] obtain s2 where
    s2: "server_step L (SendDone 0 no_error (length F)) s1 = (Ret (), s2)" "serving 0 s2" by blast
  have "sv_nextRef s2 = 2" using protobuf.nextRef_step [OF assms(1) s2(1)] s1(6) by simp
  then have "server_trans L s1 (SendDone 0 no_error (length F), Wrote 0 F) s2"
    using s1(3,5) s2(1) by (simp add: server_trans_def asio_write_contract_def del: server_step.simps)
  moreover have "server_trans L s0 (AcceptDone no_error, Accepted 0) s1"
    using s1(1,6) acc by (simp add: server_trans_def del: server_step.simps)
  ultimately have "run_of (server_trans L) s0 [(AcceptDone no_error, Accepted 0), (SendDone 0 no_error (length F), Wrote 0 F)] s2"
    by (blast intro: run_of.go run_of.stop)
  with s2(2) show ?thesis by (auto simp: serving_def conn_idle_def)
qed

subsection \<open>Properties\<close>

text \<open>
  C2. The server refines the abstract echo service. For every run of the server from its construction,
  with any number of clients, any interleaving of their events and any errors, as long as handlers
  return, the abstract service has a run from its empty state whose labels appear at the sockets
  exactly as the server's events do: a client that joins is sent the welcome message, an idle client's
  request is answered by the same message as a response, fields the schema does not declare included,
  each answer is delivered once as one frame or lost by a failed write, and no other bytes are written. The only departure the service allows is the
  overrun, from which a session does not recover.
\<close>

theorem server_refines_echo_service:
  assumes "protobuf L utf8" and "AsyncTcpServer_ctor L sys portNumber reuseAddress initial_server = (Ret (), s0)"
    and "run_of (server_trans L) s0 es s"
  shows "\<exists>ls a. run_of service_step (\<lambda>_. None) ls a \<and> map (appears L) ls = map snd es \<and> server_rel L s a"
proof -
  note sim = forward_simulation.trace_inclusion [OF protobuf.server_simulation [OF assms(1)]]
  from sim [OF assms(3) protobuf.ctor_rel [OF assms(1,2)]] obtain ls a where
    "run_of service_step (\<lambda>_. None) ls a" "list_all2 (\<lambda>l eo. appears L l = snd eo) ls es" "server_rel L s a" by blast
  then show ?thesis using appears_traces(4) by blast
qed

theorem server_refines_echo_service_witness:
  "\<exists>s0 es s ls a. AsyncTcpServer_ctor wire_lib (\<lambda>_. no_error) 54321 True initial_server = (Ret (), s0) \<and>
     run_of (server_trans wire_lib) s0 es s \<and> length es = 2 \<and>
     run_of service_step (\<lambda>_. None) ls a \<and> map (appears wire_lib) ls = map snd es \<and> server_rel wire_lib s a"
proof -
  obtain s0 where s0: "AsyncTcpServer_ctor wire_lib (\<lambda>_. no_error) 54321 True initial_server = (Ret (), s0)"
    by (rule wire.ctor_returns [of "\<lambda>_. no_error" 54321 True]) simp_all
  from joining_run [OF wire.protobuf_axioms s0 refl] obtain es s where "run_of (server_trans wire_lib) s0 es s"
    "length es = 2" by (metis length_Cons list.size(3) numeral_2_eq_2)
  with server_refines_echo_service [OF wire.protobuf_axioms s0 this(1)] s0 show ?thesis by blast
qed

text \<open>
  C9. Whatever the other clients do and however the events interleave, the bytes written to a client,
  followed by those of its outstanding write, are exactly the frames of the messages it is due: the
  welcome message when it was accepted, then for every message received from it the same message as
  an echo response, each once and in the order of arrival. A message here has the unknown fields that
  parsing kept, so they are in the bytes of its response. The conditions are that none of its writes
  failed and that its outstanding write has not been overrun.
\<close>

theorem clients_answered_in_order:
  assumes "protobuf L utf8" and "AsyncTcpServer_ctor L sys portNumber reuseAddress initial_server = (Ret (), s0)"
    and "run_of (server_trans L) s0 es s" and "map_of (sv_connections s) r = Some c"
    and "list_all wo_intact (tc_pendingWrites c)" and "WriteFailed r \<notin> snd ` set es"
  shows "concat (map (\<lambda>eo. bytes_to r (snd eo)) es) @ concat (map wo_data (tc_pendingWrites c)) =
    concat (map (\<lambda>m. frame L (chat_body L m)) (concat (map (\<lambda>eo. due_to r (snd eo)) es)))"
proof -
  note sim = forward_simulation.trace_inclusion [OF protobuf.server_simulation [OF assms(1)]]
  from sim [OF assms(3) protobuf.ctor_rel [OF assms(1,2)]] obtain ls a where ls: "run_of service_step (\<lambda>_. None) ls a"
    "list_all2 (\<lambda>l eo. appears L l = snd eo) ls es" "server_rel L s a" by blast
  note tr = appears_traces(1-3) [OF ls(2), of r]
  have "conn_rel L (Some c) (a r)" using ls(3) assms(4) by (metis server_rel_def)
  then have "a r \<noteq> Some Broken \<and> concat (map wo_data (tc_pendingWrites c)) =
      concat (map (\<lambda>m. frame L (chat_body L m)) (on_its_way (a r)))"
    using assms(5) conn_fresh_no_ops [of c] by (cases "a r"; cases "the (a r)") (auto simp: represents_pending)
  moreover from this have "concat (map (delivered_to r) ls) @ on_its_way (a r) = concat (map (owed_to r) ls)"
    using service_conserves [OF ls(1) tr(3) [OF assms(6)]] by simp
  ultimately show ?thesis unfolding tr(1,2) by (metis concat_append map_append)
qed

theorem clients_answered_in_order_witness:
  "\<exists>s0 es s c. AsyncTcpServer_ctor wire_lib (\<lambda>_. no_error) 54321 True initial_server = (Ret (), s0) \<and>
     run_of (server_trans wire_lib) s0 es s \<and> map_of (sv_connections s) 0 = Some c \<and>
     concat (map (\<lambda>eo. bytes_to 0 (snd eo)) es) @ concat (map wo_data (tc_pendingWrites c)) =
       concat (map (\<lambda>m. frame wire_lib (chat_body wire_lib m)) [welcome_message])"
proof -
  let ?F = "frame wire_lib (chat_body wire_lib welcome_message)"
  let ?es = "[(AcceptDone no_error, Accepted 0), (SendDone 0 no_error (length ?F), Wrote 0 ?F)]"
  obtain s0 where s0: "AsyncTcpServer_ctor wire_lib (\<lambda>_. no_error) 54321 True initial_server = (Ret (), s0)"
    by (rule wire.ctor_returns [of "\<lambda>_. no_error" 54321 True]) simp_all
  from joining_run [OF wire.protobuf_axioms s0 refl] obtain s c where run: "run_of (server_trans wire_lib) s0 ?es s"
    "map_of (sv_connections s) 0 = Some c" "tc_pendingWrites c = []" by blast
  have "concat (map (\<lambda>eo. bytes_to 0 (snd eo)) ?es) @ concat (map wo_data (tc_pendingWrites c)) =
      concat (map (\<lambda>m. frame wire_lib (chat_body wire_lib m)) (concat (map (\<lambda>eo. due_to 0 (snd eo)) ?es)))"
    by (rule clients_answered_in_order [OF wire.protobuf_axioms s0 run(1,2)]) (simp_all add: run(3))
  with s0 run(1,2) show ?thesis by (intro exI [of _ s0] exI [of _ ?es] exI [of _ s] exI [of _ c]) simp
qed

end
