(* ===== verification/Frame_Decoder.thy ===== *)
theory Frame_Decoder
  imports AsyncReader
begin

text \<open>
  A reference decoder for the frame loop of \<^verbatim>\<open>conn::AsyncReader\<close>, and the equivalence of the two.
  The loop is a chain of completion handlers that Asio resumes whenever the bytes it asked for have
  arrived; \<open>decode\<close> is one function of the whole byte string, for any bytes: the bodies of the
  frames it holds, and how it ends. \<open>frames_delivered_in_order\<close> speaks of streams that are
  sequences of frames; the equivalence here speaks of every stream, malformed ones included.
\<close>

subsection \<open>The reference decoder\<close>

datatype decode_status = NeedPrefix | NeedMessage nat | BadPrefix | TooLong nat

text \<open>
  \<open>ps\<close> is the size of a prefix and \<open>mx\<close> the limit of the read buffer. A prefix of
  no bytes cannot occur (\<open>Protocol_inv\<close>); the test makes the recursion total.
\<close>

function decode :: "extlib \<Rightarrow> nat \<Rightarrow> nat \<Rightarrow> string \<Rightarrow> string list \<times> decode_status" where
  "decode L ps mx s =
     (if ps = 0 \<or> length s < ps then ([], NeedPrefix)
      else case pb_FramePrefix_ParseFromArray L (take ps s) (int ps) of
        (ok, prefix) \<Rightarrow>
          (let n = unat (fp_size prefix); rest = drop ps s
           in if \<not> ok then ([], BadPrefix)
              else if n > mx then ([], TooLong n)
              else if length rest < n then ([], NeedMessage n)
              else case decode L ps mx (drop n rest) of (bodies, status) \<Rightarrow> (take n rest # bodies, status)))"
  by pat_completeness auto
termination by (relation "measure (\<lambda>(L, ps, mx, s). length s)") auto

declare decode.simps [simp del]

text \<open>The reader after a run that the decoder ends with a status.\<close>

fun reader_status :: "'cb \<Rightarrow> decode_status \<Rightarrow> unit outcome \<Rightarrow> 'cb AsyncReader \<Rightarrow> Protocol \<Rightarrow> bool" where
  "reader_status cb NeedPrefix out rd P = (out = Ret () \<and> proto_mode cb rd P \<and> await_prefix P rd)"
| "reader_status cb (NeedMessage n) out rd P = (out = Ret () \<and> proto_mode cb rd P \<and> await_message n rd)"
| "reader_status cb BadPrefix out rd P =
     (out = Throw (RuntimeError ''Wrong frame prefix format. Parse failed'') \<and>
      readInProgress rd \<and> pendingReads rd = [])"
| "reader_status cb (TooLong n) out rd P =
     (out = Throw (LengthError ''Message size exceeds max read buffer size'') \<and>
      readInProgress rd \<and> pendingReads rd = [] \<and> maxBufferSize rd < n)"

text \<open>Asio has no completion left to report: the bytes not yet read do not satisfy the outstanding read.\<close>

fun starved :: "string \<Rightarrow> (read_request \<times> read_handler) list \<Rightarrow> bool" where
  "starved unread [(AsyncRead k, h)] = (length unread < k)"
| "starved unread _ = False"

definition complete_run :: "extlib \<Rightarrow> read_event list \<Rightarrow> string \<Rightarrow> 'cb reader_state \<Rightarrow> bool" where
  "complete_run L es unread st \<longleftrightarrow>
     run_ok L es st \<and> (\<forall>e \<in> set es. \<not> failed (fst e)) \<and>
     (case reader_run L es st of
        (ds, (out, (rd, P, lw))) \<Rightarrow> out = Ret () \<longrightarrow> starved unread (pendingReads rd))"

subsection \<open>Lemmas: the steps of the loop on any bytes\<close>

definition awaiting :: "nat \<Rightarrow> 'cb AsyncReader \<Rightarrow> 'cb AsyncReader" where
  "awaiting n rd = rd\<lparr>pendingReads := [(AsyncRead n, HandleReadProtoMessageFinished True)]\<rparr>"

lemma expecting_awaiting: "expecting body rd = awaiting (length body) rd"
  by (simp add: expecting_def awaiting_def)

lemma mode_cache [simp]:
  "proto_mode cb rd (P\<lparr>deserFramePrefixCache := c\<rparr>) = proto_mode cb rd P"
  "await_prefix (P\<lparr>deserFramePrefixCache := c\<rparr>) rd = await_prefix P rd"
  "Protocol_inv (P\<lparr>deserFramePrefixCache := c\<rparr>) = Protocol_inv P"
  by (simp_all add: proto_mode_def await_prefix_def Protocol_inv_def)

lemma completion_length:
  assumes "completion_ok (ec, n, data) rd" and "\<not> failed ec" and "readBuffer rd = []"
    and "pendingReads rd = [(AsyncRead k, h)]"
  shows "n = k" and "length data = k"
  using assms by (auto simp: completion_ok_def)

context protobuf
begin

lemma any_prefix_step:
  assumes "proto_mode cb rd P" and "await_prefix P rd" and "Protocol_inv P" and "\<not> failed ec"
    and "length data = FRAME_PREFIX_SIZE"
    and "pb_FramePrefix_ParseFromArray L data (int FRAME_PREFIX_SIZE) = (ok, c)"
  shows "completeRead L (ec, FRAME_PREFIX_SIZE, data) (rd, P, lw) =
    (if \<not> ok then (Throw (RuntimeError ''Wrong frame prefix format. Parse failed''),
                    (rd\<lparr>pendingReads := [], readBuffer := data\<rparr>, P\<lparr>deserFramePrefixCache := c\<rparr>, lw))
     else if unat (fp_size c) > maxBufferSize rd
     then (Throw (LengthError ''Message size exceeds max read buffer size''),
           (rd\<lparr>pendingReads := []\<rparr>, P\<lparr>deserFramePrefixCache := c\<rparr>, lw))
     else (Ret NoCall, (awaiting (unat (fp_size c)) rd, P\<lparr>deserFramePrefixCache := c\<rparr>, lw)))"
  using assms
  by (cases rd) (simp add: completeRead_def proto_mode_def await_prefix_def Protocol_inv_def
      handleReadProtoFramePrefixFinished_def checkError_ok getFramePrefixSize_def awaiting_def
      getMessageSize_def doReadProtoMessage_def start_read_def erase0_def FRAME_PREFIX_SIZE_def)

lemma any_message_step:
  assumes "proto_mode cb rd P" and "await_prefix P rd" and "length data \<le> maxBufferSize rd" and "\<not> failed ec"
  shows "completeRead L (ec, length data, data) (awaiting (length data) rd, P, lw) =
    (Ret (Call cb data False), (rd, P, lw))"
  using frame_message_step [OF assms] unfolding expecting_awaiting .


text \<open>One prefix and, when it announces a message that has arrived, the message.\<close>

lemma decode_prefix:
  assumes "length data = FRAME_PREFIX_SIZE"
    and "pb_FramePrefix_ParseFromArray L data (int FRAME_PREFIX_SIZE) = (ok, c)"
  shows "decode L FRAME_PREFIX_SIZE mx (data @ s) =
    (let n = unat (fp_size c)
     in if \<not> ok then ([], BadPrefix) else if n > mx then ([], TooLong n)
        else if length s < n then ([], NeedMessage n)
        else case decode L FRAME_PREFIX_SIZE mx (drop n s) of (bodies, status) \<Rightarrow> (take n s # bodies, status))"
  using assms by (subst decode.simps) (simp add: Let_def FRAME_PREFIX_SIZE_def)

text \<open>On a frame the decoder is the inverse of the framing.\<close>

lemma decode_frame:
  assumes "framable body"
  shows "decode L FRAME_PREFIX_SIZE mx (frame L body @ s) =
    (if length body > mx then ([], TooLong (length body))
     else case decode L FRAME_PREFIX_SIZE mx s of (bodies, status) \<Rightarrow> (body # bodies, status))"
proof -
  have eq: "frame L body @ s = take FRAME_PREFIX_SIZE (frame L body) @ body @ s"
    using framing.take_enc [OF framing_frame assms] by (metis append.assoc)
  show ?thesis unfolding eq
    using decode_prefix [OF framing.length_take_enc [OF framing_frame assms], of True "ECHO_prefix body" mx "body @ s"]
      frame_parse [OF assms, of "[]"] fp_size_ECHO_prefix [OF assms] by (simp add: Let_def)
qed

lemma decode_frames:
  assumes "\<forall>b \<in> set bodies. framable b \<and> length b \<le> mx"
  shows "decode L FRAME_PREFIX_SIZE mx (concat (map (frame L) bodies)) = (bodies, NeedPrefix)"
  using assms
proof (induction bodies)
  case Nil
  show ?case by (subst decode.simps) (simp add: FRAME_PREFIX_SIZE_def)
qed (auto simp: decode_frame)

text \<open>
  A run that waits for a message, or for a prefix, either is over, or ends with the completion that
  is rejected, or goes on behind it.
\<close>

lemma message_run_cases:
  assumes "proto_mode cb rd P" and "await_prefix P rd" and "k \<le> maxBufferSize rd"
    and "run_ok L es (awaiting k rd, P, lw)" and "\<forall>e \<in> set es. \<not> failed (fst e)"
    and "reader_run L es (awaiting k rd, P, lw) = (ds, r)"
  obtains (over) "es = []" and "ds = []" and "r = (Ret (), (awaiting k rd, P, lw))"
  | (message) ec body es' ds' where "es = (ec, k, body) # es'" and "length body = k" and "run_ok L es' (rd, P, lw)"
      and "ds = (cb, body) # ds'" and "reader_run L es' (rd, P, lw) = (ds', r)"
proof (cases es)
  case (Cons e es')
  obtain ec n body where e: "e = (ec, n, body)" by (cases e)
  have ok: "\<not> failed ec" "completion_ok (ec, n, body) (awaiting k rd)" using assms(4,5) Cons e by auto
  have len: "n = k" "length body = k"
    using completion_length [OF ok(2,1)] assms(1) by (simp_all add: awaiting_def proto_mode_def)
  have "completeRead L e (awaiting k rd, P, lw) = (Ret (Call cb body False), (rd, P, lw))"
    using any_message_step [OF assms(1,2) _ ok(1), of body lw] assms(3) e len by simp
  then show thesis using assms(4,6) Cons e len by (auto intro: message split: prod.splits)
qed (use assms(6) in \<open>auto intro: over\<close>)

lemma prefix_run_cases:
  assumes m: "proto_mode cb rd P" "await_prefix P rd" "Protocol_inv P"
    and run: "run_ok L es (rd, P, lw)" "\<forall>e \<in> set es. \<not> failed (fst e)" "reader_run L es (rd, P, lw) = (ds, r)"
  obtains (over) "es = []" and "ds = []" and "r = (Ret (), (rd, P, lw))"
  | (rejected) data rd' P' where "received es = data" and "length data = FRAME_PREFIX_SIZE" and "ds = []"
      and "case decode L FRAME_PREFIX_SIZE (maxBufferSize rd) (data @ unread) of
        (bodies, status) \<Rightarrow> bodies = [] \<and> reader_status cb status (fst r) rd' P'"
      and "snd r = (rd', P', lw)" and "fst r \<noteq> Ret ()"
  | (accepted) ec data es' c where "es = (ec, FRAME_PREFIX_SIZE, data) # es'" and "length data = FRAME_PREFIX_SIZE"
      and "pb_FramePrefix_ParseFromArray L data (int FRAME_PREFIX_SIZE) = (True, c)"
      and "unat (fp_size c) \<le> maxBufferSize rd"
      and "run_ok L es' (awaiting (unat (fp_size c)) rd, P\<lparr>deserFramePrefixCache := c\<rparr>, lw)"
      and "reader_run L es' (awaiting (unat (fp_size c)) rd, P\<lparr>deserFramePrefixCache := c\<rparr>, lw) = (ds, r)"
proof (cases es)
  case (Cons e es')
  obtain ec n data where e: "e = (ec, n, data)" by (cases e)
  have ok: "\<not> failed ec" "completion_ok (ec, n, data) rd" using run(1,2) Cons e by auto
  have "pendingReads rd = [(AsyncRead FRAME_PREFIX_SIZE, HandleReadProtoFramePrefixFinished True)]" "readBuffer rd = []"
    using m by (simp_all add: await_prefix_def Protocol_inv_def proto_mode_def)
  from completion_length [OF ok(2,1) this(2,1)]
  have len: "n = FRAME_PREFIX_SIZE" "length data = FRAME_PREFIX_SIZE" by simp_all
  obtain parsed c where c: "pb_FramePrefix_ParseFromArray L data (int FRAME_PREFIX_SIZE) = (parsed, c)"
    by (cases "pb_FramePrefix_ParseFromArray L data (int FRAME_PREFIX_SIZE)")
  note step = any_prefix_step [OF m ok(1) len(2) c, of lw]
  show thesis
  proof (cases "parsed \<and> unat (fp_size c) \<le> maxBufferSize rd")
    case False
    then have "es' = []" using run(1) step Cons e len by (auto split: if_splits)
    with False show thesis using step decode_prefix [OF len(2) c, of "maxBufferSize rd" unread] m(1) run(3) Cons e len
      by (intro rejected [of data "fst (snd r)" "fst (snd (snd r))"])
        (auto simp: received_def proto_mode_def Let_def split: if_splits)
  next
    case True
    then show thesis using run(1,3) Cons e len c step by (intro accepted) (simp_all split: prod.splits)
  qed
qed (use run(3) in \<open>auto intro: over\<close>)

lemma decode_run:
  assumes "proto_mode cb rd P" and "await_prefix P rd" and "Protocol_inv P"
    and "run_ok L es (rd, P, lw)" and "\<forall>e \<in> set es. \<not> failed (fst e)"
    and "reader_run L es (rd, P, lw) = (ds, (out, (rd', P', lw')))"
    and "out = Ret () \<longrightarrow> starved unread (pendingReads rd')"
  shows "\<exists>bodies status. decode L FRAME_PREFIX_SIZE (maxBufferSize rd) (received es @ unread) = (bodies, status) \<and>
    ds = map (Pair cb) bodies \<and> reader_status cb status out rd' P' \<and> lw' = lw"
  using assms
proof (induction "length es" arbitrary: es P ds rule: less_induct)
  case less
  from less.prems(1-6) show ?case
  proof (cases rule: prefix_run_cases [where unread = unread])
    case over
    then have "length unread < FRAME_PREFIX_SIZE"
      using less.prems by (auto simp: await_prefix_def Protocol_inv_def)
    with over less.prems(1-3) show ?thesis by (subst decode.simps) (auto simp: received_def)
  next
    case (rejected data)
    then show ?thesis by (auto split: prod.splits)
  next
    case (accepted ec data es1 c)
    let ?k = "unat (fp_size c)" and ?P = "P\<lparr>deserFramePrefixCache := c\<rparr>"
    have m: "proto_mode cb rd ?P" "await_prefix ?P rd" "Protocol_inv ?P" using less.prems(1-3) by simp_all
    have ne: "\<forall>e \<in> set es1. \<not> failed (fst e)" using less.prems(5) accepted(1) by simp
    have all: "received es @ unread = data @ received es1 @ unread" using accepted(1) by (simp add: received_def)
    note dec = decode_prefix [OF accepted(2,3)]
    from m(1,2) accepted(4,5) ne accepted(6) show ?thesis
    proof (cases rule: message_run_cases)
      case over
      then show ?thesis using less.prems(7) accepted(4) m(1,2) unfolding all dec
        by (auto simp: awaiting_def received_def proto_mode_def await_message_def)
    next
      case (message ec2 body es2 ds2)
      have "length es2 < length es" "\<forall>e \<in> set es2. \<not> failed (fst e)" using accepted(1) message(1) ne by auto
      from less.hyps [OF this(1) m message(3) this(2) message(5) less.prems(7)]
      show ?thesis using accepted(4) message(1,2,4) unfolding all dec
        by (auto simp: received_def Let_def)
    qed
  qed
qed

text \<open>Every stream has such a run: Asio reports the completions the loop asks for, one by one.\<close>

lemma stream_run:
  assumes "proto_mode cb rd P" and "await_prefix P rd" and "Protocol_inv P"
  shows "\<exists>es unread. complete_run L es unread (rd, P, lw) \<and> received es @ unread = s"
  using assms
proof (induction "length s" arbitrary: s P rule: less_induct)
  case less
  have pend: "pendingReads rd = [(AsyncRead FRAME_PREFIX_SIZE, HandleReadProtoFramePrefixFinished True)]" "readBuffer rd = []"
    using less.prems by (simp_all add: await_prefix_def Protocol_inv_def proto_mode_def)
  show ?case
  proof (cases "length s < FRAME_PREFIX_SIZE")
    case True
    with pend show ?thesis by (intro exI [of _ "[]"] exI [of _ s]) (simp add: complete_run_def received_def)
  next
    case False
    let ?e = "(no_error, FRAME_PREFIX_SIZE, take FRAME_PREFIX_SIZE s)" and ?r = "drop FRAME_PREFIX_SIZE s"
    obtain parsed c where c: "pb_FramePrefix_ParseFromArray L (take FRAME_PREFIX_SIZE s) (int FRAME_PREFIX_SIZE) = (parsed, c)"
      by (cases "pb_FramePrefix_ParseFromArray L (take FRAME_PREFIX_SIZE s) (int FRAME_PREFIX_SIZE)")
    let ?k = "unat (fp_size c)" and ?P = "P\<lparr>deserFramePrefixCache := c\<rparr>"
    have len: "length (take FRAME_PREFIX_SIZE s) = FRAME_PREFIX_SIZE" using False by simp
    note step = any_prefix_step [OF less.prems failed_no_error len c, of lw]
    have ok: "completion_ok ?e rd" using False pend by (simp add: completion_ok_def)
    show ?thesis
    proof (cases "parsed \<and> ?k \<le> maxBufferSize rd \<and> ?k \<le> length ?r")
      case False
      then show ?thesis using step ok
        by (intro exI [of _ "[?e]"] exI [of _ ?r]) (auto simp: complete_run_def received_def awaiting_def)
    next
      case True
      have m: "proto_mode cb rd ?P" "await_prefix ?P rd" "Protocol_inv ?P" using less.prems by simp_all
      have "length (drop ?k ?r) < length s" using False by (simp add: FRAME_PREFIX_SIZE_def)
      from less.hyps [OF this m] obtain es unread
        where es: "complete_run L es unread (rd, ?P, lw)" "received es @ unread = drop ?k ?r" by blast
      have step2: "completeRead L (no_error, ?k, take ?k ?r) (awaiting ?k rd, ?P, lw) =
          (Ret (Call cb (take ?k ?r) False), (rd, ?P, lw))"
        using any_message_step [OF m(1,2) _ failed_no_error, of "take ?k ?r" lw] True by simp
      have ok2: "completion_ok (no_error, ?k, take ?k ?r) (awaiting ?k rd)"
        using True pend(2) by (simp add: completion_ok_def awaiting_def)
      have all: "take FRAME_PREFIX_SIZE s @ take ?k ?r @ drop ?k ?r = s" by (simp only: append_take_drop_id)
      show ?thesis using es True step step2 ok ok2 all
        by (intro exI [of _ "?e # (no_error, ?k, take ?k ?r) # es"] exI [of _ unread])
          (auto simp: complete_run_def received_def simp del: drop_drop split: prod.splits)
    qed
  qed
qed

end

subsection \<open>Properties\<close>

text \<open>
  C6. The frame loop is the reference decoder, on every byte stream: Asio can deliver any stream to
  the loop, in the pieces the loop asks for, and however it does so without errors, the bodies the
  callback gets are the bodies \<open>decode\<close> finds in the stream, in order, and the reader ends the
  way \<open>decode\<close> does: waiting for a prefix or for the rest of a message that fits the buffer, or,
  at a prefix that does not parse or announces a message larger than the buffer, with an exception.
  In the last two cases no read is outstanding and the in-progress flag stays set: the reader is
  wedged, every later attempt to read is refused.
\<close>

theorem frame_loop_decodes:
  assumes "protobuf L utf8" and "Protocol_inv P" and "FRAME_PREFIX_SIZE \<le> mx" and "mx < 2 ^ 64"
    and "readAsyncProtoInfOccupy cb (AsyncReader_ctor mx, P, lw) = (Ret (), st)"
    and "decode L FRAME_PREFIX_SIZE mx s = (bodies, status)"
  shows "(\<exists>es unread. complete_run L es unread st \<and> received es @ unread = s) \<and>
    (\<forall>es unread. complete_run L es unread st \<and> received es @ unread = s \<longrightarrow>
      (\<exists>out rd' P'. reader_run L es st = (map (Pair cb) bodies, (out, (rd', P', lw))) \<and>
        reader_status cb status out rd' P'))"
proof -
  have "PREFIX_SIZE P \<le> mx" using assms(2,3) by (simp add: Protocol_inv_def)
  from start_proto [OF this assms(4), of cb lw] assms(5)
  obtain rd where st: "st = (rd, P, lw)" and m: "proto_mode cb rd P" "await_prefix P rd" and mx: "maxBufferSize rd = mx" by auto
  have "\<exists>out rd' P'. reader_run L es st = (map (Pair cb) bodies, (out, (rd', P', lw))) \<and> reader_status cb status out rd' P'"
    if "complete_run L es unread st" and "received es @ unread = s" for es unread
  proof -
    obtain ds out rd' P' lw' where run: "reader_run L es (rd, P, lw) = (ds, (out, (rd', P', lw')))"
      by (cases "reader_run L es (rd, P, lw)") auto
    with that(1) have "run_ok L es (rd, P, lw)" "\<forall>e \<in> set es. \<not> failed (fst e)"
      "out = Ret () \<longrightarrow> starved unread (pendingReads rd')" by (simp_all add: complete_run_def st)
    from protobuf.decode_run [OF assms(1) m assms(2) this(1,2) run this(3)] that(2) assms(6) mx run
    show ?thesis by (auto simp: st)
  qed
  with protobuf.stream_run [OF assms(1) m assms(2)] show ?thesis unfolding st by blast
qed

text \<open>A message of two bytes, then one byte more than the buffer holds: the reader is wedged.\<close>

theorem frame_loop_decodes_witness:
  "(\<exists>es unread out rd' P'. complete_run wire_lib es unread
        (snd (readAsyncProtoInfOccupy () (AsyncReader_ctor 1024, wire_protocol, initial_logw))) \<and>
      received es @ unread = frame wire_lib ''ab'' @ frame wire_lib (replicate 1025 (CHR ''x'')) \<and>
      reader_run wire_lib es (snd (readAsyncProtoInfOccupy () (AsyncReader_ctor 1024, wire_protocol, initial_logw))) =
        (map (Pair ()) [''ab''], (out, (rd', P', initial_logw))) \<and>
      reader_status () (TooLong 1025) out rd' P')"
proof -
  have P: "Protocol_inv wire_protocol" "FRAME_PREFIX_SIZE \<le> 1024" "(1024 :: nat) < 2 ^ 64"
    by (simp_all add: Protocol_inv_def FRAME_PREFIX_SIZE_def)
  from start_proto [of wire_protocol 1024 "()" initial_logw] P(2) obtain rd
    where st: "readAsyncProtoInfOccupy () (AsyncReader_ctor 1024, wire_protocol, initial_logw) =
        (Ret (), (rd, wire_protocol, initial_logw))" by auto
  have "framable ''ab''" "framable (replicate 1025 (CHR ''x''))" by (simp_all only: framable_def length_replicate) simp_all
  from wire.decode_frame [OF this(1)] wire.decode_frame [OF this(2), of 1024 "[]"]
  have "decode wire_lib FRAME_PREFIX_SIZE 1024 (frame wire_lib ''ab'' @ frame wire_lib (replicate 1025 (CHR ''x''))) =
      ([''ab''], TooLong 1025)" by simp
  from frame_loop_decodes [OF wire.protobuf_axioms P st this] st show ?thesis
    unfolding st snd_conv by blast
qed

end
