(* ===== verification/Frame_Stream.thy ===== *)
theory Frame_Stream
  imports Frame_Decoder Program
begin

text \<open>
  Consumers of framed streams. Both programs read frames and react to each message; \<open>process\<close> is
  the reference for such a program on an arbitrary byte stream, for any reaction: it cuts the stream at
  the prefixes, reacts to the bodies, and says how it ends. The locale \<open>frame_consumer\<close> is the
  contract between a program and the reference, event by event; inside it whole runs are proved
  equivalent to the reference. The interpretations are in theories \<open>Server_Stream\<close> and
  \<open>Client_Stream\<close>.
\<close>

subsection \<open>The reference\<close>

text \<open>
  The position in a stream: before a prefix, or behind the given prefix. A piece of the size that is
  needed there gives results and the next position, or ends the connection.
\<close>

fun need :: "FramePrefix option \<Rightarrow> nat" where
  "need None = FRAME_PREFIX_SIZE"
| "need (Some prefix) = unat (fp_size prefix)"

fun advance :: "(FramePrefix \<Rightarrow> string \<Rightarrow> 'a outcome) \<Rightarrow> extlib \<Rightarrow> FramePrefix option \<Rightarrow> string
    \<Rightarrow> ('a list \<times> FramePrefix option) outcome" where
  "advance react L None data =
     (case pb_FramePrefix_ParseFromArray L data (int FRAME_PREFIX_SIZE) of
        (ok, prefix) \<Rightarrow>
          if \<not> ok then Throw (RuntimeError ''Wrong frame prefix format. Parse failed'')
          else if unat (fp_size prefix) > MAX_READ_BUFFER_SIZE_BYTES
          then Throw (LengthError ''Message size exceeds max read buffer size'')
          else Ret ([], Some prefix))"
| "advance react L (Some prefix) data = map_outcome (\<lambda>a. ([a], None)) (react prefix data)"

lemma advance_position:
  "advance react L q d = Ret (as, q') \<Longrightarrow> (q = None \<longleftrightarrow> q' \<noteq> None) \<and> length as = (if q = None then 0 else 1)"
  by (cases q; cases "react (the q) d") (auto split: prod.splits if_splits)

text \<open>The outcome \<open>Ret ()\<close>: the program goes on and waits for the bytes that are missing.\<close>

function process :: "(FramePrefix \<Rightarrow> string \<Rightarrow> 'a outcome) \<Rightarrow> extlib \<Rightarrow> FramePrefix option \<Rightarrow> string
    \<Rightarrow> 'a list \<times> unit outcome" where
  "process react L q s =
     (if length s < need q then ([], Ret ())
      else case advance react L q (take (need q) s) of
        Ret (as, q') \<Rightarrow> (case process react L q' (drop (need q) s) of (bs, verdict) \<Rightarrow> (as @ bs, verdict))
      | Throw x \<Rightarrow> ([], Throw x)
      | AssertFail m \<Rightarrow> ([], AssertFail m)
      | Undefined m \<Rightarrow> ([], Undefined m))"
  by pat_completeness auto

termination
proof (relation "measure (\<lambda>(react, L, q, s). 2 * length s + (if q = None then 0 else 1))")
  fix react :: "FramePrefix \<Rightarrow> string \<Rightarrow> 'a outcome" and L q s y as q'
  assume "\<not> length s < need q" and "advance react L q (take (need q) s) = Ret y" and "(as, q') = y"
  then show "((react, L, q', drop (need q) s), (react, L, q, s)) \<in>
      measure (\<lambda>(react, L, q, s). 2 * length s + (if q = None then 0 else 1))"
    using advance_position [of react L q "take (need q) s" as q'] by (cases q) (auto simp: FRAME_PREFIX_SIZE_def)
qed simp

declare process.simps [simp del]

text \<open>One piece of the stream.\<close>

lemma process_piece:
  "length d = need q \<Longrightarrow> process react L q (d @ s) =
    (case advance react L q d of
       Ret (as, q') \<Rightarrow> (case process react L q' s of (bs, verdict) \<Rightarrow> (as @ bs, verdict))
     | Throw x \<Rightarrow> ([], Throw x) | AssertFail m \<Rightarrow> ([], AssertFail m) | Undefined m \<Rightarrow> ([], Undefined m))"
  by (subst process.simps) (cases "advance react L q d"; auto split: prod.splits)

lemma process_starved: "length s < need q \<Longrightarrow> process react L q s = ([], Ret ())"
  by (subst process.simps) simp

context protobuf
begin

text \<open>On a frame the reference reacts to its body.\<close>

lemma process_frame:
  assumes "framable body" and "length body \<le> MAX_READ_BUFFER_SIZE_BYTES"
  shows "process react L None (frame L body @ s) =
    (case react (ECHO_prefix body) body of
       Ret a \<Rightarrow> (case process react L None s of (bs, verdict) \<Rightarrow> (a # bs, verdict))
     | Throw x \<Rightarrow> ([], Throw x) | AssertFail m \<Rightarrow> ([], AssertFail m) | Undefined m \<Rightarrow> ([], Undefined m))"
proof -
  note size = fp_size_ECHO_prefix [OF assms(1)]
  have eq: "frame L body @ s = take FRAME_PREFIX_SIZE (frame L body) @ body @ s"
    using framing.take_enc [OF framing_frame assms(1)] by (metis append.assoc)
  have "advance react L None (take FRAME_PREFIX_SIZE (frame L body)) = Ret ([], Some (ECHO_prefix body))"
    using frame_parse [OF assms(1), of "[]"] framing.length_take_enc [OF framing_frame assms(1)] assms(2) size by simp
  then have "process react L None (frame L body @ s) = process react L (Some (ECHO_prefix body)) (body @ s)"
    unfolding eq using framing.length_take_enc [OF framing_frame assms(1)] by (subst process_piece) simp_all
  also have "\<dots> = (case react (ECHO_prefix body) body of
       Ret a \<Rightarrow> (case process react L None s of (bs, verdict) \<Rightarrow> (a # bs, verdict))
     | Throw x \<Rightarrow> ([], Throw x) | AssertFail m \<Rightarrow> ([], AssertFail m) | Undefined m \<Rightarrow> ([], Undefined m))"
    using size by (subst process_piece) (cases "react (ECHO_prefix body) body"; auto split: prod.splits)+
  finally show ?thesis .
qed

lemma process_frames:
  assumes "\<And>x. x \<in> set xs \<Longrightarrow> framable (body x) \<and> length (body x) \<le> MAX_READ_BUFFER_SIZE_BYTES \<and>
      react (ECHO_prefix (body x)) (body x) = Ret (result x)"
  shows "process react L None (concat (map (\<lambda>x. frame L (body x)) xs) @ s) =
    (case process react L None s of (bs, verdict) \<Rightarrow> (map result xs @ bs, verdict))"
  using assms
proof (induction xs)
  case (Cons x xs)
  then show ?case using process_frame [of "body x" react] by (auto split: prod.splits)
qed (simp split: prod.splits)

end

subsection \<open>The frame loop at a position\<close>

fun at_position :: "FramePrefix option \<Rightarrow> 'cb AsyncReader \<Rightarrow> Protocol \<Rightarrow> bool" where
  "at_position None rd P = await_prefix P rd"
| "at_position (Some prefix) rd P = (await_message (unat (fp_size prefix)) rd \<and> deserFramePrefixCache P = prefix)"

definition reader_at :: "'cb \<Rightarrow> FramePrefix option \<Rightarrow> 'cb AsyncReader \<Rightarrow> Protocol \<Rightarrow> bool" where
  "reader_at cb q rd P \<longleftrightarrow> proto_mode cb rd P \<and> Protocol_inv P \<and> maxBufferSize rd = MAX_READ_BUFFER_SIZE_BYTES \<and>
     at_position q rd P"

lemma reader_at_inv: "reader_at cb q rd P \<Longrightarrow> proto_inv cb rd P"
  by (cases q) (auto simp: reader_at_def proto_inv_def)

lemma reader_at_request:
  assumes "reader_at cb q rd P"
  shows "\<exists>h. pendingReads rd = [(AsyncRead (need q), h)]" and "readBuffer rd = []"
  using assms by (cases q; simp add: reader_at_def await_prefix_def await_message_def Protocol_inv_def proto_mode_def)+

lemma reader_at_completion:
  assumes "reader_at cb q rd P" and "completion_ok (ec, n, data) rd" and "\<not> failed ec"
  shows "n = length data" and "length data = need q"
  using reader_at_request [OF assms(1)] completion_length [OF assms(2,3)] by fastforce+

lemma reader_at_delivery:
  "reader_at cb q rd P \<Longrightarrow> length d = need q \<Longrightarrow> completion_ok (no_error, length d, d) rd"
  using reader_at_request [of cb q rd P] by (auto simp: completion_ok_def)

lemma reader_at_starved:
  "reader_at cb q rd P \<Longrightarrow> starved unread (pendingReads rd) \<longleftrightarrow> length unread < need q"
  using reader_at_request(1) [of cb q rd P] by auto

context protobuf
begin

lemma prefix_read:
  assumes "reader_at cb None rd P" and "completion_ok (ec, n, data) rd" and "\<not> failed ec"
  obtains rd' P' where "completeRead L (ec, n, data) (rd, P, lw) =
      (map_outcome (\<lambda>_. NoCall) (advance react L None data), (rd', P', lw))"
    and "PREFIX_SIZE P' = PREFIX_SIZE P" and "maxBufferSize rd' = maxBufferSize rd"
    and "\<And>as q'. advance react L None data = Ret (as, q') \<Longrightarrow> as = [] \<and> reader_at cb q' rd' P'"
proof -
  note len = reader_at_completion [OF assms]
  obtain ok p where p: "pb_FramePrefix_ParseFromArray L data (int FRAME_PREFIX_SIZE) = (ok, p)" by fastforce
  have rd: "proto_mode cb rd P" "await_prefix P rd" "Protocol_inv P" "maxBufferSize rd = MAX_READ_BUFFER_SIZE_BYTES"
    using assms(1) by (simp_all add: reader_at_def)
  note step = any_prefix_step [OF rd(1-3) assms(3) _ p, of lw]
  let ?r = "completeRead L (ec, n, data) (rd, P, lw)"
  have "reader_at cb (Some p) (awaiting (unat (fp_size p)) rd) (P\<lparr>deserFramePrefixCache := p\<rparr>)"
    if "unat (fp_size p) \<le> MAX_READ_BUFFER_SIZE_BYTES"
    using rd that by (simp add: reader_at_def awaiting_def proto_mode_def await_message_def)
  then show thesis using step len p rd(4)
    by (intro that [of "fst (snd ?r)" "fst (snd (snd ?r))"]) (auto simp: awaiting_def split: if_splits)
qed

lemma message_read:
  assumes "reader_at cb (Some p) rd P" and "completion_ok (ec, n, data) rd" and "\<not> failed ec"
  obtains rd' where "completeRead L (ec, n, data) (rd, P, lw) = (Ret (Call cb data False), (rd', P, lw))"
    and "reader_at cb None rd' P" and "deserFramePrefixCache P = p"
proof -
  note len = reader_at_completion [OF assms]
  define rd' where "rd' = rd\<lparr>pendingReads := [(AsyncRead FRAME_PREFIX_SIZE, HandleReadProtoFramePrefixFinished True)]\<rparr>"
  have at: "await_message (unat (fp_size p)) rd" "deserFramePrefixCache P = p" "reader_at cb None rd' P"
    using assms(1) by (simp_all add: rd'_def reader_at_def proto_mode_def await_prefix_def Protocol_inv_def)
  have m: "proto_mode cb rd' P" "await_prefix P rd'" "length data \<le> maxBufferSize rd'"
    using at len(2) by (simp_all add: reader_at_def await_message_def rd'_def)
  have "awaiting (length data) rd' = rd" using at(1) len(2) by (simp add: awaiting_def rd'_def await_message_def)
  with any_message_step [OF m assms(3), of lw] len(1) at show thesis by (intro that [of rd']) simp_all
qed

end

subsection \<open>Programs that consume frames\<close>

text \<open>
  The bytes the events of a run bring, what they emit, and the runs that deliver a stream up to
  \<open>unread\<close>, for which the program still waits. Events without a piece of the stream return; what
  ends the program is the last event.
\<close>

definition delivered_bytes :: "('e \<Rightarrow> string option) \<Rightarrow> 'e list \<Rightarrow> string" where
  "delivered_bytes piece es = concat (map (\<lambda>e. case piece e of None \<Rightarrow> [] | Some d \<Rightarrow> d) es)"

fun emitted :: "('e \<Rightarrow> 's \<Rightarrow> ('s, unit) run) \<Rightarrow> ('e \<Rightarrow> 's \<Rightarrow> string) \<Rightarrow> 'e list \<Rightarrow> 's \<Rightarrow> string" where
  "emitted step emit [] s = []"
| "emitted step emit (e # es) s =
     emit e s @ (case step e s of (Ret u, s') \<Rightarrow> emitted step emit es s' | _ \<Rightarrow> [])"

fun stream_run :: "('e \<Rightarrow> 's \<Rightarrow> ('s, unit) run) \<Rightarrow> ('s \<Rightarrow> 'e \<Rightarrow> bool) \<Rightarrow> ('e \<Rightarrow> string option) \<Rightarrow> (string \<Rightarrow> 's \<Rightarrow> bool)
    \<Rightarrow> 'e list \<Rightarrow> string \<Rightarrow> 's \<Rightarrow> bool" where
  "stream_run step enabled piece waits [] unread s = waits unread s"
| "stream_run step enabled piece waits (e # es) unread s =
     (enabled s e \<and>
      (case step e s of
         (Ret u, s') \<Rightarrow> stream_run step enabled piece waits es unread s'
       | _ \<Rightarrow> piece e \<noteq> None \<and> es = []))"

lemma delivered_bytes_simps [simp]:
  "delivered_bytes piece [] = []"
  "delivered_bytes piece (e # es) = (case piece e of None \<Rightarrow> [] | Some d \<Rightarrow> d) @ delivered_bytes piece es"
  by (simp_all add: delivered_bytes_def)

text \<open>
  \<open>pos\<close> is the invariant with the position; \<open>emit\<close> is what an event gives out and \<open>held\<close> what is
  still to be given out; a result is given out as \<open>render\<close> says, and \<open>last_words\<close> is what an event
  that ends the program leaves behind.
\<close>

locale frame_consumer =
  fixes L :: extlib
    and react :: "FramePrefix \<Rightarrow> string \<Rightarrow> 'a outcome"
    and step :: "'e \<Rightarrow> 's \<Rightarrow> ('s, unit) run"
    and enabled :: "'s \<Rightarrow> 'e \<Rightarrow> bool"
    and piece :: "'e \<Rightarrow> string option"
    and waits :: "string \<Rightarrow> 's \<Rightarrow> bool"
    and pos :: "FramePrefix option \<Rightarrow> 's \<Rightarrow> bool"
    and emit :: "'e \<Rightarrow> 's \<Rightarrow> string"
    and held :: "'s \<Rightarrow> string"
    and render :: "'a \<Rightarrow> string"
    and last_words :: "unit outcome \<Rightarrow> string"
  assumes piece_step: "pos q s \<Longrightarrow> enabled s e \<Longrightarrow> piece e = Some d \<Longrightarrow>
      length d = need q \<and> (\<exists>s'. step e s = (map_outcome (\<lambda>_. ()) (advance react L q d), s') \<and>
        (case advance react L q d of
           Ret (as, q') \<Rightarrow> pos q' s' \<and> emit e s @ held s' = held s @ concat (map render as)
         | _ \<Rightarrow> emit e s @ held s' = held s @ last_words (fst (step e s))))"
    and other_step: "pos q s \<Longrightarrow> enabled s e \<Longrightarrow> piece e = None \<Longrightarrow> step e s = (Ret (), s') \<Longrightarrow>
      pos q s' \<and> emit e s @ held s' = held s"
    and waits_iff: "pos q s \<Longrightarrow> waits unread s \<longleftrightarrow> length unread < need q"
    and last_words_Ret: "last_words (Ret ()) = []"
begin

lemma run_processes:
  assumes "pos q s" and "stream_run step enabled piece waits es unread s"
  shows "\<exists>as verdict s'. process react L q (delivered_bytes piece es @ unread) = (as, verdict) \<and>
    loop_run step es s = (verdict, s') \<and>
    emitted step emit es s @ held s' = held s @ concat (map render as) @ last_words verdict"
  using assms
proof (induction es arbitrary: s q)
  case Nil
  then show ?case by (simp add: waits_iff process_starved last_words_Ret)
next
  case (Cons e es)
  have en: "enabled s e" using Cons.prems(2) by simp
  show ?case
  proof (cases "piece e")
    case None
    then obtain s1 where s1: "step e s = (Ret (), s1)" "stream_run step enabled piece waits es unread s1"
      using Cons.prems(2) by (auto split: prod.splits outcome.splits)
    note o = other_step [OF Cons.prems(1) en None s1(1)]
    from Cons.IH [OF conjunct1 [OF o] s1(2)] obtain as verdict s'
      where "process react L q (delivered_bytes piece es @ unread) = (as, verdict)" "loop_run step es s1 = (verdict, s')"
        "emitted step emit es s1 @ held s' = held s1 @ concat (map render as) @ last_words verdict" by blast
    with conserve_append [of "emit e s" "held s1" "held s" "[]"] o s1(1) None show ?thesis by auto
  next
    case (Some d)
    from piece_step [OF Cons.prems(1) en Some] obtain s1 where len: "length d = need q" and
      s1: "step e s = (map_outcome (\<lambda>_. ()) (advance react L q d), s1)" and
      a: "case advance react L q d of Ret (as, q') \<Rightarrow> pos q' s1 \<and> emit e s @ held s1 = held s @ concat (map render as)
        | _ \<Rightarrow> emit e s @ held s1 = held s @ last_words (fst (step e s))" by blast
    show ?thesis
    proof (cases "advance react L q d")
      case (Ret y)
      obtain as q' where y: "y = (as, q')" by (cases y)
      have "stream_run step enabled piece waits es unread s1" using Cons.prems(2) s1 Ret by simp
      from Cons.IH [OF _ this, of q'] a Ret y obtain bs verdict s'
        where "process react L q' (delivered_bytes piece es @ unread) = (bs, verdict)" "loop_run step es s1 = (verdict, s')"
          "emitted step emit es s1 @ held s' = held s1 @ concat (map render bs) @ last_words verdict" by auto
      with s1 a Ret y Some len show ?thesis by (auto simp: process_piece)
    qed (use Cons.prems(2) s1 a Some len in \<open>auto simp: process_piece\<close>)
  qed
qed

end

text \<open>Programs to which every stream can be delivered, at most one other event before each piece.\<close>

locale live_frame_consumer = frame_consumer +
  assumes deliver: "pos q s \<Longrightarrow> length d = need q \<Longrightarrow>
      \<exists>e. piece e = Some d \<and> (enabled s e \<or>
        (\<exists>e0 s1. piece e0 = None \<and> enabled s e0 \<and> step e0 s = (Ret (), s1) \<and> enabled s1 e))"
begin

lemma stream_run_after:
  assumes "pos q s" and "enabled s e" and "piece e = Some d"
    and IH: "\<And>as q' s'. advance react L q d = Ret (as, q') \<Longrightarrow> pos q' s' \<Longrightarrow>
      \<exists>es unread. stream_run step enabled piece waits es unread s' \<and> delivered_bytes piece es @ unread = rest"
  shows "\<exists>es unread. stream_run step enabled piece waits es unread s \<and> delivered_bytes piece es @ unread = d @ rest"
proof -
  from piece_step [OF assms(1-3)] obtain s1 where
    s1: "step e s = (map_outcome (\<lambda>_. ()) (advance react L q d), s1)" and
    a: "case advance react L q d of Ret (as, q') \<Rightarrow> pos q' s1 | _ \<Rightarrow> True"
    by (cases "advance react L q d") auto
  show ?thesis
  proof (cases "advance react L q d")
    case (Ret y)
    obtain as q' where y: "y = (as, q')" by (cases y)
    with IH [of as q' s1] a Ret obtain es unread
      where "stream_run step enabled piece waits es unread s1" "delivered_bytes piece es @ unread = rest" by auto
    with s1 Ret assms(2,3) show ?thesis by (intro exI [of _ "e # es"] exI [of _ unread]) simp
  qed (use s1 assms(2,3) in \<open>intro exI [of _ "[e]"] exI [of _ rest], simp\<close>)+
qed

lemma stream_run_exists:
  assumes "pos q s"
  shows "\<exists>es unread. stream_run step enabled piece waits es unread s \<and> delivered_bytes piece es @ unread = bytes"
  using assms
proof (induction "2 * length bytes + (if q = None then 0 else 1)" arbitrary: q s bytes rule: less_induct)
  case less
  show ?case
  proof (cases "length bytes < need q")
    case True
    with waits_iff [OF less.prems] show ?thesis by (intro exI [of _ "[]"] exI [of _ bytes]) simp
  next
    case False
    let ?d = "take (need q) bytes" and ?rest = "drop (need q) bytes"
    have IH: "\<exists>es unread. stream_run step enabled piece waits es unread s' \<and> delivered_bytes piece es @ unread = ?rest"
      if "advance react L q ?d = Ret (as, q')" and "pos q' s'" for as q' s'
      using less.hyps [OF _ that(2), of ?rest] advance_position [OF that(1)] False
      by (cases q) (auto simp: FRAME_PREFIX_SIZE_def)
    have all: "?d @ ?rest = bytes" by simp
    from False deliver [OF less.prems, of ?d] obtain e where e: "piece e = Some ?d"
      "enabled s e \<or> (\<exists>e0 s1. piece e0 = None \<and> enabled s e0 \<and> step e0 s = (Ret (), s1) \<and> enabled s1 e)" by auto
    from e(2) show ?thesis
    proof (elim disjE exE conjE)
      assume "enabled s e"
      with less.prems have "\<exists>es unread. stream_run step enabled piece waits es unread s \<and>
          delivered_bytes piece es @ unread = ?d @ ?rest" by (rule stream_run_after [OF _ _ e(1)]) (rule IH)
      then show ?thesis unfolding all .
    next
      fix e0 s1
      assume e0: "piece e0 = None" "enabled s e0" "step e0 s = (Ret (), s1)" "enabled s1 e"
      have "pos q s1" using other_step [OF less.prems e0(2,1,3)] by simp
      then have "\<exists>es unread. stream_run step enabled piece waits es unread s1 \<and> delivered_bytes piece es @ unread = ?d @ ?rest"
        by (rule stream_run_after [OF _ e0(4) e(1)]) (rule IH)
      then obtain es unread
        where "stream_run step enabled piece waits es unread s1" "delivered_bytes piece es @ unread = bytes"
        unfolding all by blast
      with e0 show ?thesis by (intro exI [of _ "e0 # es"] exI [of _ unread]) simp
    qed
  qed
qed

text \<open>The program is equivalent to the reference.\<close>

lemma equivalent:
  assumes "pos q s" and "process react L q bytes = (as, verdict)"
  shows "(\<exists>es unread. stream_run step enabled piece waits es unread s \<and> delivered_bytes piece es @ unread = bytes) \<and>
    (\<forall>es unread. stream_run step enabled piece waits es unread s \<and> delivered_bytes piece es @ unread = bytes \<longrightarrow>
      (\<exists>s'. loop_run step es s = (verdict, s') \<and>
        emitted step emit es s @ held s' = held s @ concat (map render as) @ last_words verdict))"
  using stream_run_exists [OF assms(1)] run_processes [OF assms(1)] assms(2) by fastforce

end

end
