(* ===== verification/Server_Stream.thy ===== *)
theory Server_Stream
  imports Echo_Session Frame_Stream
begin

text \<open>
  The server on an arbitrary byte stream: a connection of the server as a consumer of frames, for any
  bytes and between the events of any other clients, as long as the client waits for its answers.
\<close>

subsection \<open>The reaction\<close>

text \<open>The answer to one message, under the prefix it came with.\<close>

definition answer_to :: "extlib \<Rightarrow> FramePrefix \<Rightarrow> string \<Rightarrow> string outcome" where
  "answer_to L prefix body =
     (if fp_type prefix \<noteq> FramePrefix_ECHO
      then AssertFail ''_deserFramePrefixCache.type() == proto::FramePrefix::ECHO''
      else case pb_ChatMessage_ParseFromArray L body (int (length body)) of
        None \<Rightarrow> Throw (RuntimeError ''Wrong chat message format. Parse failed'')
      | Some m \<Rightarrow>
          if cm_type m \<noteq> ChatMessage_ECHO_REQUEST
          then AssertFail ''echoMessage->type() == proto::ChatMessage::ECHO_REQUEST''
          else case pb_SerializeToString L (MChatMessage (echo_response m)) of
            None \<Rightarrow> Throw (RuntimeError ''Failed to serialize chat message'')
          | Some answer \<Rightarrow> Ret (frame L answer))"

subsection \<open>One connection\<close>

definition conn_at :: "FramePrefix option \<Rightarrow> TcpConnection \<Rightarrow> bool" where
  "conn_at q c \<longleftrightarrow> conn_running c \<and> tc_handler c = EchoClientHandler \<and> list_all wo_intact (tc_pendingWrites c) \<and>
     at_position q (tc_reader c) (tc_protocol c)"

definition outgoing :: "TcpConnection \<Rightarrow> string" where
  "outgoing c = concat (map wo_data (tc_pendingWrites c))"

text \<open>What a completed read has to do when the reference advances.\<close>

definition advanced :: "(string list \<times> FramePrefix option) outcome \<Rightarrow> TcpConnection \<Rightarrow> (conn_state, unit) run \<Rightarrow> bool" where
  "advanced a c = (\<lambda>(res, (c', lw')).
     res = map_outcome (\<lambda>_. ()) a \<and>
     (case a of
        Ret (ws, q') \<Rightarrow> conn_at q' c' \<and> outgoing c' = outgoing c @ concat ws
      | _ \<Rightarrow> outgoing c' = outgoing c))"

lemma conn_at_reader:
  "conn_at q c \<Longrightarrow> reader_at TcpConnection_handleRead_cb q (tc_reader c) (tc_protocol c)"
  by (simp add: conn_at_def reader_at_def conn_running_def conn_inv_def proto_inv_def)

lemma conn_at_update:
  assumes "conn_at q c" and "reader_at TcpConnection_handleRead_cb q' rd P" and "PREFIX_SIZE P = PREFIX_SIZE (tc_protocol c)"
  shows "conn_at q' (c\<lparr>tc_reader := rd, tc_protocol := P\<rparr>)"
proof -
  have "conn_running (c\<lparr>tc_reader := rd, tc_protocol := P\<rparr>)"
    using assms(1,2) conn_at_reader [OF assms(1)]
    by (intro conn_running_reader [OF _ reader_at_inv [OF assms(2)] assms(3)]) (simp_all add: conn_at_def reader_at_def)
  with assms(1,2) show ?thesis by (simp add: conn_at_def reader_at_def)
qed

context protobuf
begin

lemma handleRead_answers:
  assumes "Protocol_inv (tc_protocol c)"
  obtains (answered) w P' lw' where "answer_to L (deserFramePrefixCache (tc_protocol c)) data = Ret w"
      and "PREFIX_SIZE P' = PREFIX_SIZE (tc_protocol c)"
      and "TcpConnection_handleRead L data (c, lw) = (Ret (), TcpConnection_send w (c\<lparr>tc_protocol := P'\<rparr>, lw'))"
  | (ended) c' lw' where "\<forall>w. answer_to L (deserFramePrefixCache (tc_protocol c)) data \<noteq> Ret w"
      and "tc_pendingWrites c' = tc_pendingWrites c"
      and "TcpConnection_handleRead L data (c, lw) =
        (map_outcome (\<lambda>_. ()) (answer_to L (deserFramePrefixCache (tc_protocol c)) data), (c', lw'))"
proof (cases rule: deserialize_cases [of L data "int (length data)" "tc_protocol c"])
  case assert
  then show thesis
    by (intro ended) (auto simp: TcpConnection_handleRead_def answer_to_def deserialize_def split: if_splits option.splits)
next
  case parse
  then show thesis
    by (intro ended) (auto simp: TcpConnection_handleRead_def answer_to_def deserialize_def split: if_splits option.splits)
next
  case (message m)
  let ?m = "MChatMessage (echo_response m)"
  note defs = TcpConnection_handleRead_def answer_to_def handleServer_def echo_response_def TcpConnection_set_protocol_def Let_def
  show thesis
  proof (cases "cm_type m = ChatMessage_ECHO_REQUEST")
    case False
    with message show thesis by (intro ended) (simp_all add: defs)
  next
    case True
    have "cm_type (echo_response m) \<noteq> 0" by (simp add: echo_response_def)
    from assms this show thesis
    proof (cases rule: serialize_chat_cases)
      case (ok body)
      with message True show thesis
        by (intro answered [where P' = "(tc_protocol c)\<lparr>serFramePrefixCache := ECHO_prefix body\<rparr>"]) (simp_all add: defs)
    next
      case (fail P')
      with message True show thesis
        by (intro ended [where c' = "c\<lparr>tc_protocol := P'\<rparr>"]) (simp_all add: defs)
    qed
  qed
qed

text \<open>A completed read in each position.\<close>

lemma prefix_advanced:
  assumes "conn_at None c" and "completion_ok (ec, n, data) (tc_reader c)" and "\<not> failed ec"
  shows "advanced (advance (answer_to L) L None data) c (TcpConnection_onRead L (ec, n, data) (c, lw))"
proof -
  from prefix_read [OF conn_at_reader [OF assms(1)] assms(2,3), of lw "answer_to L"] obtain rd P where
    r: "completeRead L (ec, n, data) (tc_reader c, tc_protocol c, lw) =
      (map_outcome (\<lambda>_. NoCall) (advance (answer_to L) L None data), (rd, P, lw))"
    "PREFIX_SIZE P = PREFIX_SIZE (tc_protocol c)" and
    at: "\<And>ws q'. advance (answer_to L) L None data = Ret (ws, q') \<Longrightarrow>
      ws = [] \<and> reader_at TcpConnection_handleRead_cb q' rd P" by metis
  from r(1) at conn_at_update [OF assms(1) _ r(2)] show ?thesis
    by (cases "advance (answer_to L) L None data")
      (auto simp: TcpConnection_onRead_def advanced_def outgoing_def simp del: advance.simps)
qed

lemma message_advanced:
  assumes "conn_at (Some p) c" and "tc_pendingWrites c = []" and "completion_ok (ec, n, data) (tc_reader c)" and "\<not> failed ec"
  shows "advanced (advance (answer_to L) L (Some p) data) c (TcpConnection_onRead L (ec, n, data) (c, lw))"
proof -
  from message_read [OF conn_at_reader [OF assms(1)] assms(3,4), of lw] obtain rd where
    r: "completeRead L (ec, n, data) (tc_reader c, tc_protocol c, lw) =
      (Ret (Call TcpConnection_handleRead_cb data False), (rd, tc_protocol c, lw))"
    "reader_at TcpConnection_handleRead_cb None rd (tc_protocol c)" "deserFramePrefixCache (tc_protocol c) = p" by metis
  let ?c = "c\<lparr>tc_reader := rd\<rparr>"
  have read: "TcpConnection_onRead L (ec, n, data) (c, lw) = TcpConnection_handleRead L data (?c, lw)"
    using r(1) andThen_unit [of "TcpConnection_handleRead L data (?c, lw)"] by (simp add: TcpConnection_onRead_def split_def)
  have at: "conn_at None ?c" using conn_at_update [OF assms(1) r(2)] by simp
  have "Protocol_inv (tc_protocol ?c)" using r(2) by (simp add: reader_at_def)
  then show ?thesis
  proof (cases rule: handleRead_answers [of _ data lw])
    case (answered w P' lw')
    from assms(2) at have "conn_idle (?c\<lparr>tc_protocol := P'\<rparr>)"
      by (simp add: conn_at_def conn_idle_def conn_running_def conn_inv_def send_inv_def split: if_splits)
    note send = TcpConnection_send_idle [OF this, of w lw']
    have "await_frame (?c\<lparr>tc_protocol := P'\<rparr>)"
      by (rule await_frame_protocol) (use at answered(2) in \<open>simp_all add: conn_at_def await_frame_def\<close>)
    from await_frame_send [OF this, of w lw'] have "await_frame (fst (TcpConnection_send w (?c\<lparr>tc_protocol := P'\<rparr>, lw')))" .
    with answered at r(3) assms(2) show ?thesis unfolding read answered(3)
      by (simp add: send advanced_def conn_at_def await_frame_def outgoing_def)
  next
    case (ended c' lw')
    then show ?thesis unfolding read ended(3) using r(3)
      by (cases "answer_to L p data") (simp_all add: advanced_def outgoing_def)
  qed
qed

lemma conn_advance:
  assumes "conn_at q c" and "completion_ok (ec, n, data) (tc_reader c)" and "\<not> failed ec"
    and "tc_pendingWrites c = [] \<or> q = None"
  shows "advanced (advance (answer_to L) L q data) c (TcpConnection_onRead L (ec, n, data) (c, lw))"
  using assms prefix_advanced message_advanced by (cases q) auto

end

subsection \<open>The server's side of a stream\<close>

text \<open>The bytes an event brings to one connection, and what is on its way to the client.\<close>

fun bytes_for :: "ref \<Rightarrow> server_event \<Rightarrow> string option" where
  "bytes_for r (ReadDone r' (ec, n, data)) = (if r' = r then Some data else None)"
| "bytes_for r _ = None"

definition outgoing_to :: "ref \<Rightarrow> server \<Rightarrow> string" where
  "outgoing_to r s = (case map_of (sv_connections s) r of None \<Rightarrow> [] | Some c \<Rightarrow> outgoing c)"

text \<open>
  The client of the connection is patient: its operations do not fail, and its next message is complete
  only after the last answer has been written. The next prefix may arrive before.
\<close>

fun patient :: "ref \<Rightarrow> server_event \<Rightarrow> server \<Rightarrow> bool" where
  "patient r (ReadDone r' (ec, n, data)) s =
     (r' = r \<longrightarrow> \<not> failed ec \<and>
       (case map_of (sv_connections s) r of
          None \<Rightarrow> False
        | Some c \<Rightarrow> tc_pendingWrites c = [] \<or> await_prefix (tc_protocol c) (tc_reader c)))"
| "patient r (SendDone r' ec n) s = (r' = r \<longrightarrow> \<not> failed ec)"
| "patient r (AcceptDone ec) s = True"

text \<open>The events that may happen, before the identity counter wraps.\<close>

definition patient_event :: "extlib \<Rightarrow> ref \<Rightarrow> server \<Rightarrow> server_event \<Rightarrow> bool" where
  "patient_event L r s e \<longleftrightarrow> event_ok s e \<and> patient r e s \<and> sv_nextRef (snd (server_step L e s)) < 2 ^ 64"

text \<open>The outstanding read needs more than what is left of the stream.\<close>

definition waits_for :: "ref \<Rightarrow> string \<Rightarrow> server \<Rightarrow> bool" where
  "waits_for r unread s =
     (case map_of (sv_connections s) r of None \<Rightarrow> False | Some c \<Rightarrow> starved unread (pendingReads (tc_reader c)))"

definition server_at :: "ref \<Rightarrow> FramePrefix option \<Rightarrow> server \<Rightarrow> bool" where
  "server_at r q s \<longleftrightarrow> server_inv s \<and> (\<exists>c. map_of (sv_connections s) r = Some c \<and> conn_at q c)"

lemma server_at_nextRef: "server_at r q s \<Longrightarrow> sv_nextRef s < 2 ^ 64"
  using unat_u64_less [of "sv_nextId s"] by (auto simp: server_at_def server_inv_def manager_inv_def)

lemma bytes_for_Some: "bytes_for r e = Some d \<longleftrightarrow> (\<exists>ec n. e = ReadDone r (ec, n, d))"
  by (cases "(r, e)" rule: bytes_for.cases) auto

lemma server_run_emitted: "sent_to L r es s = emitted (server_step L) (written r) es s"
  by (induction es arbitrary: s) (auto split: prod.splits outcome.splits)

lemma server_read_advance:
  assumes "protobuf L utf8" and "server_at r q s" and "patient_event L r s (ReadDone r (ec, n, d))"
  shows "length d = need q \<and> (\<exists>s'. server_step L (ReadDone r (ec, n, d)) s = (map_outcome (\<lambda>_. ()) (advance (answer_to L) L q d), s') \<and>
    (case advance (answer_to L) L q d of
       Ret (ws, q') \<Rightarrow> server_at r q' s' \<and> outgoing_to r s' = outgoing_to r s @ concat ws
     | _ \<Rightarrow> outgoing_to r s' = outgoing_to r s))"
proof -
  let ?e = "ReadDone r (ec, n, d)"
  have ev: "event_ok s ?e" "patient r ?e s" using assms(3) by (simp_all add: patient_event_def del: event_ok.simps patient.simps)
  obtain c where c: "map_of (sv_connections s) r = Some c" "conn_at q c" "server_inv s"
    using assms(2) by (auto simp: server_at_def)
  have ok: "completion_ok (ec, n, d) (tc_reader c)" "\<not> failed ec" using ev c(1) by simp_all
  have "\<not> (await_prefix (tc_protocol c) (tc_reader c) \<and> await_message k (tc_reader c))" for k
    by (simp add: await_prefix_def await_message_def)
  then have "tc_pendingWrites c = [] \<or> q = None" using ev(2) c(1,2) by (cases q) (auto simp: conn_at_def)
  note adv = protobuf.conn_advance [OF assms(1) c(2) ok this, of "sv_log s"]
  obtain res c' lw' where e: "TcpConnection_onRead L (ec, n, d) (c, sv_log s) = (res, (c', lw'))"
    by (cases "TcpConnection_onRead L (ec, n, d) (c, sv_log s)") auto
  let ?s' = "s\<lparr>sv_connections := AList.update r c' (sv_connections s), sv_log := lw'\<rparr>"
  have step: "server_step L ?e s = (res, ?s')"
    using on_conn_Some [OF c(1), of "TcpConnection_onRead L (ec, n, d)", OF e] by simp
  from adv e have a: "res = map_outcome (\<lambda>_. ()) (advance (answer_to L) L q d)" "case advance (answer_to L) L q d of
      Ret (ws, q') \<Rightarrow> conn_at q' c' \<and> outgoing c' = outgoing c @ concat ws | _ \<Rightarrow> outgoing c' = outgoing c"
    by (simp_all add: advanced_def)
  have inv: "server_inv ?s'" if "res = Ret ()"
    using protobuf.server_read_step [OF assms(1) c(3) ev(1)] step that by (simp del: server_step.simps)
  have "case advance (answer_to L) L q d of
      Ret (ws, q') \<Rightarrow> server_at r q' ?s' \<and> outgoing_to r ?s' = outgoing_to r s @ concat ws
    | _ \<Rightarrow> outgoing_to r ?s' = outgoing_to r s"
    using a inv c(1) by (cases "advance (answer_to L) L q d") (auto simp: server_at_def outgoing_to_def update_conv)
  with step a reader_at_completion(2) [OF conn_at_reader [OF c(2)] ok] show ?thesis by (simp del: server_step.simps)
qed

lemma server_send_advance:
  assumes "server_at r q s" and "event_ok s (SendDone r ec n)" and "\<not> failed ec"
  obtains c' lw' where "server_step L (SendDone r ec n) s = (Ret (), s\<lparr>sv_connections := AList.update r c' (sv_connections s), sv_log := lw'\<rparr>)"
    and "server_at r q (s\<lparr>sv_connections := AList.update r c' (sv_connections s), sv_log := lw'\<rparr>)"
    and "conn_at q c'" and "tc_pendingWrites c' = []" and "written r (SendDone r ec n) s = outgoing_to r s"
proof -
  obtain c where c: "map_of (sv_connections s) r = Some c" "conn_at q c" "server_inv s"
    using assms(1) by (auto simp: server_at_def)
  obtain op ops where p: "tc_pendingWrites c = op # ops" "asio_write_contract op ec n"
    using assms(2) c(1) by (auto split: list.splits)
  have at: "conn_running c" "tc_handler c = EchoClientHandler" "list_all wo_intact (tc_pendingWrites c)"
    "at_position q (tc_reader c) (tc_protocol c)"
    using c(2) by (simp_all add: conn_at_def)
  note run = conn_running_written [OF at(1) p(1)]
  let ?c = "c\<lparr>tc_pendingWrites := [], tc_writeInProgress := False\<rparr>"
  obtain lw' where step: "server_step L (SendDone r ec n) s = (Ret (), s\<lparr>sv_connections := AList.update r ?c
       (sv_connections s), sv_log := lw'\<rparr>)" using onWrite_eq [OF c(1) at(2), of op ec n] p at(3) run(1) by auto
  have "conn_at q ?c" using at run(2) by (simp add: conn_at_def)
  moreover have "server_inv (s\<lparr>sv_connections := AList.update r ?c (sv_connections s), sv_log := lw'\<rparr>)"
    by (rule server_inv_update [OF c(3,1) at(1) run(2)]) simp_all
  moreover have "take n (wo_data op) = wo_data op" using p(2) assms(3) by (simp add: asio_write_contract_def)
  ultimately show thesis using step p(1) run(1) c(1)
    by (intro that [where c' = ?c and lw' = lw']) (simp_all add: outgoing_to_def outgoing_def server_at_def update_conv)
qed

text \<open>Events of others.\<close>

fun other_event :: "ref \<Rightarrow> server_event \<Rightarrow> bool" where
  "other_event r (AcceptDone ec) = True"
| "other_event r (ReadDone r' e) = (r' \<noteq> r)"
| "other_event r (SendDone r' ec n) = (r' \<noteq> r)"

lemma others_keep_conn:
  assumes "protobuf L utf8" and "server_at r q s" and "event_ok s e" and "other_event r e"
    and "server_step L e s = (Ret (), s')" and "sv_nextRef s' < 2 ^ 64"
  shows "map_of (sv_connections s') r = map_of (sv_connections s) r"
proof (cases e)
  case (AcceptDone ec)
  obtain c where c: "map_of (sv_connections s) r = Some c" "conn_running c" and inv: "server_inv s"
    using assms(2) by (auto simp: server_at_def conn_at_def)
  from inv obtain r0 c0 where acc: "sv_accepting s = [r0]" "map_of (sv_connections s) r0 = Some c0" "conn_fresh c0"
    by (auto simp: server_inv_def)
  have "r \<noteq> r0" using c acc conn_fresh_not_running by auto
  moreover have "r < sv_nextRef s"
    using inv c(1) map_of_refs [of s r] by (auto simp: server_inv_def manager_inv_def)
  moreover have "Suc (sv_nextRef s) < 2 ^ 64"
    using protobuf.nextRef_step [OF assms(1,5)] assms(6) AcceptDone acc(1) by simp
  ultimately show ?thesis using protobuf.server_accept_step [OF assms(1) inv _ acc(1), of ec] assms(5) AcceptDone by auto
next
  case (ReadDone r' x)
  then show ?thesis using isolated_step [of s e r' x no_error 0 r L] assms(2,4,5)
    by (simp add: server_at_def del: server_step.simps)
next
  case (SendDone r' ec n)
  then show ?thesis using isolated_step [of s e r' _ ec n r L] assms(2,4,5)
    by (simp add: server_at_def del: server_step.simps)
qed

lemma server_other_step:
  assumes "protobuf L utf8" and "server_at r q s" and "patient_event L r s e" and "bytes_for r e = None"
    and "server_step L e s = (Ret (), s')"
  shows "server_at r q s' \<and> written r e s @ outgoing_to r s' = outgoing_to r s"
proof -
  have ev: "event_ok s e" "patient r e s" "sv_nextRef s' < 2 ^ 64"
    using assms(3,5) by (simp_all add: patient_event_def del: event_ok.simps patient.simps server_step.simps)
  consider (sent) ec n where "e = SendDone r ec n" | (other) "other_event r e"
    using assms(4) by (cases "(r, e)" rule: bytes_for.cases) (auto split: if_splits)
  then show ?thesis
  proof cases
    case sent
    with ev assms(2,5) show ?thesis
      by (elim server_send_advance [of r q s ec n L])
        (auto simp: outgoing_to_def outgoing_def update_conv simp del: server_step.simps written.simps)
  next
    case other
    note same = others_keep_conn [OF assms(1,2) ev(1) other assms(5) ev(3)]
    have "server_inv s'" using protobuf.server_step_inv [OF assms(1) _ ev(1) assms(5) ev(3)] assms(2) by (simp add: server_at_def)
    moreover have "written r e s = []" using other by (cases e) simp_all
    ultimately show ?thesis using same assms(2) by (simp add: server_at_def outgoing_to_def)
  qed
qed

text \<open>A piece can be delivered, if need be after the last answer has been written.\<close>

lemma server_can_read:
  assumes "server_at r q s" and "map_of (sv_connections s) r = Some c" and "tc_pendingWrites c = []" and "length d = need q"
  shows "patient_event L r s (ReadDone r (no_error, length d, d))"
proof -
  have "conn_at q c" using assms(1,2) by (simp add: server_at_def)
  from reader_at_delivery [OF conn_at_reader [OF this] assms(4)] assms(2,3) server_at_nextRef [OF assms(1)]
  show ?thesis by (simp add: patient_event_def)
qed

lemma server_delivers:
  assumes "server_at r q s" and "length d = need q"
  shows "\<exists>e. bytes_for r e = Some d \<and> (patient_event L r s e \<or>
    (\<exists>e0 s1. bytes_for r e0 = None \<and> patient_event L r s e0 \<and> server_step L e0 s = (Ret (), s1) \<and> patient_event L r s1 e))"
proof -
  let ?e = "ReadDone r (no_error, length d, d)"
  obtain c where c: "map_of (sv_connections s) r = Some c" using assms(1) by (auto simp: server_at_def)
  show ?thesis
  proof (cases "tc_pendingWrites c")
    case Nil
    with server_can_read [OF assms(1) c _ assms(2)] show ?thesis by (intro exI [of _ ?e]) simp
  next
    case (Cons op ops)
    let ?done = "SendDone r no_error (length (wo_data op))"
    have ok: "event_ok s ?done" using c Cons by (simp add: asio_write_contract_def)
    from server_send_advance [OF assms(1) ok failed_no_error, of L] obtain c' lw' where
      s1: "server_step L ?done s = (Ret (), s\<lparr>sv_connections := AList.update r c' (sv_connections s), sv_log := lw'\<rparr>)"
      "server_at r q (s\<lparr>sv_connections := AList.update r c' (sv_connections s), sv_log := lw'\<rparr>)" "tc_pendingWrites c' = []"
      by metis
    let ?s1 = "s\<lparr>sv_connections := AList.update r c' (sv_connections s), sv_log := lw'\<rparr>"
    have "patient_event L r s ?done"
      using ok s1(1) server_at_nextRef [OF s1(2)] by (simp add: patient_event_def del: event_ok.simps server_step.simps)
    moreover have "patient_event L r ?s1 ?e"
      by (rule server_can_read [OF s1(2) _ s1(3) assms(2)]) (simp add: update_conv)
    ultimately show ?thesis using s1(1)
      by (intro exI [of _ ?e] conjI disjI2 exI [of _ ?done] exI [of _ ?s1]) (simp_all del: server_step.simps)
  qed
qed

lemma server_consumer:
  assumes "protobuf L utf8"
  shows "live_frame_consumer L (answer_to L) (server_step L) (patient_event L r) (bytes_for r) (waits_for r) (server_at r)
    (written r) (outgoing_to r) (\<lambda>w. w) (\<lambda>_. [])"
proof unfold_locales
  fix q s e d
  assume at: "server_at r q s" and ev: "patient_event L r s e" and "bytes_for r e = Some d"
  then obtain ec n where e: "e = ReadDone r (ec, n, d)" by (auto simp: bytes_for_Some)
  from server_read_advance [OF assms at, of ec n d] ev e
  show "length d = need q \<and> (\<exists>s'. server_step L e s = (map_outcome (\<lambda>_. ()) (advance (answer_to L) L q d), s') \<and>
      (case advance (answer_to L) L q d of
         Ret (ws, q') \<Rightarrow> server_at r q' s' \<and> written r e s @ outgoing_to r s' = outgoing_to r s @ concat (map (\<lambda>w. w) ws)
       | _ \<Rightarrow> written r e s @ outgoing_to r s' = outgoing_to r s @ []))"
    by (cases "advance (answer_to L) L q d") (auto simp del: server_step.simps)
next
  show "waits_for r unread s \<longleftrightarrow> length unread < need q" if "server_at r q s" for q s unread
    using that reader_at_starved [OF conn_at_reader] by (auto simp: server_at_def waits_for_def)
qed (use server_other_step [OF assms] server_delivers in \<open>simp_all del: server_step.simps\<close>)

interpretation wire_server_stream: live_frame_consumer wire_lib "answer_to wire_lib" "server_step wire_lib" "patient_event wire_lib r"
  "bytes_for r" "waits_for r" "server_at r" "written r" "outgoing_to r" "\<lambda>w. w" "\<lambda>_. []"
  by (rule server_consumer [OF wire.protobuf_axioms])

text \<open>Requests are answered, whatever follows them.\<close>

context protobuf
begin

lemma answer_to_request:
  assumes "echo_request utf8 m"
  shows "answer_to L (ECHO_prefix body) (chat_body L m) = Ret (frame L (chat_body L (echo_response m)))"
proof -
  note m = echo_request_answer [OF assms]
  have "cm_type (echo_response m) \<noteq> 0" "length (cm_text (echo_response m)) + length (cm_unknown (echo_response m)) + 23 < 2 ^ 31"
    using m by (simp_all add: echo_response_def)
  note answer = chat_body_framable(1) [OF this(2,1)]
  have "pb_ChatMessage_ParseFromArray L (chat_body L m) (int (length (chat_body L m))) = Some m"
    using chat_parse [OF fitting_body(1) [of m], of "[]"] m by (simp add: chat_fits_def)
  with answer m show ?thesis by (simp add: answer_to_def)
qed

lemma process_requests:
  assumes "\<forall>m \<in> set ms. echo_request utf8 m"
  shows "process (answer_to L) L None (concat (map (\<lambda>m. frame L (chat_body L m)) ms) @ s) =
    (case process (answer_to L) L None s of (answers, verdict) \<Rightarrow>
       (map (\<lambda>m. frame L (chat_body L (echo_response m))) ms @ answers, verdict))"
  using assms fitting_body(2,3) answer_to_request by (intro process_frames) (auto simp: echo_request_def)

end

subsection \<open>Properties\<close>

text \<open>
  C7. The server on any byte stream from a client that waits for its answers. Every stream can be
  delivered to the connection, and however its reads and writes are scheduled, between the events of
  any other clients, the bytes sent to the client, with the write that may still be outstanding, are the
  answers the reference \<open>process (answer_to L)\<close> gives to the stream, in order, and nothing else; and
  the event loop ends as the reference does: it goes on when the stream is used up, throws at a prefix or
  body that does not parse, at a message larger than the buffer and at an answer that cannot be
  serialized, and aborts at a frame or a message of another type. The answer to a request is made
  from the parsed message, unknown fields included.
\<close>

theorem server_answers_any_stream:
  assumes "protobuf L utf8" and "server_inv s" and "serving r s"
    and "process (answer_to L) L None bytes = (answers, verdict)"
  shows "(\<exists>es unread. stream_run (server_step L) (patient_event L r) (bytes_for r) (waits_for r) es unread s \<and>
      delivered_bytes (bytes_for r) es @ unread = bytes) \<and>
    (\<forall>es unread. stream_run (server_step L) (patient_event L r) (bytes_for r) (waits_for r) es unread s \<and>
        delivered_bytes (bytes_for r) es @ unread = bytes \<longrightarrow>
      (\<exists>s'. server_run L es s = (verdict, s') \<and> sent_to L r es s @ outgoing_to r s' = concat answers))"
proof -
  obtain c where c: "map_of (sv_connections s) r = Some c" "await_frame c" "conn_idle c" "tc_handler c = EchoClientHandler"
    using assms(3) by (auto simp: serving_def)
  then have at: "server_at r None s" and out: "outgoing_to r s = []"
    using assms(2) by (simp_all add: server_at_def conn_at_def await_frame_def conn_idle_def outgoing_to_def outgoing_def)
  from live_frame_consumer.equivalent [OF server_consumer [OF assms(1)] at assms(4)] show ?thesis
    by (simp add: server_run_emitted server_run_loop out)
qed

text \<open>Two requests, then a body that is no chat message, then anything: two answers, and an exception.\<close>

theorem server_answers_any_stream_witness:
  "\<exists>es unread s'. stream_run (server_step wire_lib) (patient_event wire_lib 0) (bytes_for 0) (waits_for 0) es unread busy_server \<and>
    delivered_bytes (bytes_for 0) es @ unread =
      concat (map (\<lambda>m. frame wire_lib (chat_body wire_lib m)) [sample_request, sample_request]) @
      frame wire_lib [CHR 0xFF] @ ''xyz'' \<and>
    server_run wire_lib es busy_server = (Throw (RuntimeError ''Wrong chat message format. Parse failed''), s') \<and>
    sent_to wire_lib 0 es busy_server @ outgoing_to 0 s' =
      concat (map (\<lambda>m. frame wire_lib (chat_body wire_lib (echo_response m))) [sample_request, sample_request])"
proof -
  let ?F = "\<lambda>m. frame wire_lib (chat_body wire_lib m)"
  let ?ms = "[sample_request, sample_request]" and ?tail = "frame wire_lib [CHR 0xFF] @ ''xyz''"
  let ?x = "Throw (RuntimeError ''Wrong chat message format. Parse failed'')"
  have b: "framable [CHR 0xFF]" "length [CHR 0xFF] \<le> MAX_READ_BUFFER_SIZE_BYTES"
    by (simp_all add: framable_def MAX_READ_BUFFER_SIZE_BYTES_def)
  have nil: "get_varint k [] = None" for k by (cases k) simp_all
  have "get_varint (Suc k) [CHR 0xFF] = None" for k by (simp add: nil)
  from this [of 9] have "pb_ChatMessage_ParseFromArray wire_lib [CHR 0xFF] (int (length [CHR 0xFF])) = None"
    by (simp add: wire_lib_def dec_ChatMessage_def parse_fields_def get_field_def)
  then have "answer_to wire_lib (ECHO_prefix [CHR 0xFF]) [CHR 0xFF] = ?x" by (simp add: answer_to_def)
  with wire.process_frame [OF b, of "answer_to wire_lib" "''xyz''"]
  have tail: "process (answer_to wire_lib) wire_lib None ?tail = ([], ?x)" by simp
  have "\<forall>m \<in> set ?ms. echo_request valid_utf8 m" using sample_request_ok by simp
  from wire.process_requests [OF this, of ?tail] tail
  have "process (answer_to wire_lib) wire_lib None (concat (map ?F ?ms) @ ?tail) = (map (\<lambda>m. ?F (echo_response m)) ?ms, ?x)"
    by simp
  from server_answers_any_stream [OF wire.protobuf_axioms busy_server_inv busy_server_serving this] show ?thesis by meson
qed

end
