(* ===== verification/AsyncTcpClient.thy ===== *)
theory AsyncTcpClient
  imports AsyncReader AsyncWriter EchoHandler
begin

text \<open>
  The client's end of the connection: \<^verbatim>\<open>conn::AsyncTcpClient\<close>
  (\<^verbatim>\<open>client/include/acs/conn/AsyncTcpClient.hpp\<close>, \<^verbatim>\<open>client/src/conn/AsyncTcpClient.cpp\<close>). The
  \<^verbatim>\<open>Protocol\<close> object that \<^verbatim>\<open>main\<close> owns is used by the client only and is kept in its
  record; the static members are a record of their own. The blocking receive loop reads from a peer
  that is the bytes it still sends and the error code with which its stream ends.
\<close>

subsection \<open>State\<close>

datatype client_callback = AsyncTcpClient_handleRead_cb

record AsyncTcpClient =
  cl_protocol :: Protocol
  cl_writer :: AsyncWriter
  cl_reader :: "client_callback AsyncReader"
  cl_connecting :: "(string \<times> port_t) option"

record client_statics =
  cs_alreadyInitialized :: bool
  cs_FRAME_PREFIX_SIZE :: nat

type_synonym client_state = "AsyncTcpClient \<times> logw"

definition initial_statics :: client_statics where
  "initial_statics = \<lparr>cs_alreadyInitialized = False, cs_FRAME_PREFIX_SIZE = 0\<rparr>"

definition RECV_BUFFER_SIZE :: nat where
  "RECV_BUFFER_SIZE = 128"

definition initializeFramingProtocol :: "extlib \<Rightarrow> client_statics \<Rightarrow> client_statics" where
  "initializeFramingProtocol L st =
     (if \<not> cs_alreadyInitialized st
      then \<lparr>cs_alreadyInitialized = True,
            cs_FRAME_PREFIX_SIZE = pb_ByteSizeLong L (MFramePrefix (FramePrefix_default\<lparr>fp_size := 1\<rparr>))\<rparr>
      else st)"

definition decodeMessageSize :: "FramePrefix \<Rightarrow> nat" where
  "decodeMessageSize prefix = unat (fp_size prefix)"

text \<open>\<open>make_address\<close> is the error code of \<^verbatim>\<open>asio::ip::make_address\<close>, which throws it.\<close>

definition AsyncTcpClient_ctor ::
    "extlib \<Rightarrow> (string \<Rightarrow> error_code) \<Rightarrow> Protocol \<Rightarrow> string \<Rightarrow> port_t \<Rightarrow> client_statics
      \<Rightarrow> (client_statics, AsyncTcpClient) run" where
  "AsyncTcpClient_ctor L make_address protocol remoteHost remotePort st =
     (let st' = initializeFramingProtocol L st
      in if failed (make_address remoteHost) then (Throw (SystemError (make_address remoteHost)), st')
         else (Ret \<lparr>cl_protocol = protocol, cl_writer = AsyncWriter_ctor,
                    cl_reader = AsyncReader_ctor MAX_READ_BUFFER_SIZE_BYTES,
                    cl_connecting = Some (remoteHost, remotePort)\<rparr>, st'))"

subsection \<open>The asynchronous interface\<close>

definition receiveInfinitely :: "client_state \<Rightarrow> (client_state, unit) run" where
  "receiveInfinitely = (\<lambda>(c, lw).
     case readAsyncProtoInfOccupy AsyncTcpClient_handleRead_cb (cl_reader c, cl_protocol c, lw) of
       (res, (rd, P, lw')) \<Rightarrow> (res, (c\<lparr>cl_reader := rd, cl_protocol := P\<rparr>, lw')))"

definition AsyncTcpClient_send :: "extlib \<Rightarrow> MessageLite \<Rightarrow> client_state \<Rightarrow> (client_state, unit) run" where
  "AsyncTcpClient_send L message = (\<lambda>(c, lw).
     case serialize L message (cl_protocol c) of
       (res, P) \<Rightarrow>
         andThen (res, (c\<lparr>cl_protocol := P\<rparr>, lw)) (\<lambda>wireMessage (c, lw).
           case AsyncWriter_write wireMessage (cl_writer c, lw) of
             (w, lw') \<Rightarrow> (Ret (), (c\<lparr>cl_writer := w\<rparr>, lw'))))"

definition handleConnect :: "error_code \<Rightarrow> client_state \<Rightarrow> (client_state, unit) run" where
  "handleConnect error st = (if failed error then (Throw (SystemError error), st) else receiveInfinitely st)"

definition AsyncTcpClient_handleRead :: "extlib \<Rightarrow> string \<Rightarrow> client_state \<Rightarrow> (client_state, unit) run" where
  "AsyncTcpClient_handleRead L inputMessageData = (\<lambda>(c, lw).
     case deserialize L inputMessageData (int (length inputMessageData)) (cl_protocol c) of
       (res, P) \<Rightarrow>
         andThen (res, (c\<lparr>cl_protocol := P\<rparr>, lw)) (\<lambda>message (c, lw).
           case handleClient message lw of (res', lw') \<Rightarrow> (res', (c, lw'))))"

text \<open>Asio completes the connect, a read or the write of the client's socket.\<close>

definition AsyncTcpClient_onConnect :: "error_code \<Rightarrow> client_state \<Rightarrow> (client_state, unit) run" where
  "AsyncTcpClient_onConnect ec = (\<lambda>(c, lw).
     if cl_connecting c = None then (Ret (), (c, lw)) else handleConnect ec (c\<lparr>cl_connecting := None\<rparr>, lw))"

definition AsyncTcpClient_onRead :: "extlib \<Rightarrow> read_event \<Rightarrow> client_state \<Rightarrow> (client_state, unit) run" where
  "AsyncTcpClient_onRead L e = (\<lambda>(c, lw).
     case completeRead L e (cl_reader c, cl_protocol c, lw) of
       (res, (rd, P, lw')) \<Rightarrow>
         andThen (res, (c\<lparr>cl_reader := rd, cl_protocol := P\<rparr>, lw')) (\<lambda>d st.
           case d of
             NoCall \<Rightarrow> (Ret (), st)
           | Call AsyncTcpClient_handleRead_cb data reset \<Rightarrow>
               andThen (AsyncTcpClient_handleRead L data st) (\<lambda>_ (c', lw').
                 (Ret (), (if reset then c'\<lparr>cl_reader := (cl_reader c')\<lparr>callback := None\<rparr>\<rparr> else c', lw')))))"

definition AsyncTcpClient_onWrite :: "extlib \<Rightarrow> error_code \<Rightarrow> nat \<Rightarrow> client_state \<Rightarrow> (client_state, unit) run" where
  "AsyncTcpClient_onWrite L ec n = (\<lambda>(c, lw).
     case snd (completeWrite L ec n (cl_writer c, lw)) of
       (res, (w, lw')) \<Rightarrow> (res, (c\<lparr>cl_writer := w\<rparr>, lw')))"

subsection \<open>Decoding for display\<close>

text \<open>
  A \<^verbatim>\<open>std::ostringstream\<close> made from a string, with the default mode: the text of the stream and
  the position of the next write, which starts at 0 and overwrites.
\<close>

type_synonym ostringstream = "string \<times> nat"

definition oss_init :: "string \<Rightarrow> ostringstream" where
  "oss_init s = (s, 0)"

definition oss_put :: "string \<Rightarrow> ostringstream \<Rightarrow> ostringstream" where
  "oss_put s = (\<lambda>(buf, pos). (take pos buf @ s @ drop (pos + length s) buf, pos + length s))"

definition type_name :: "uint32 \<Rightarrow> string" where
  "type_name t =
     (if t = ChatMessage_NORMAL then ''normal''
      else if t = ChatMessage_URGENT then ''urgent''
      else if t = ChatMessage_EVENT_SETTER then ''event setter''
      else if t = ChatMessage_EVENT_DELETER then ''event deleter''
      else if t = ChatMessage_TEST then ''test''
      else ''unknown type'')"

definition decodeMessage :: "ChatMessage \<Rightarrow> string" where
  "decodeMessage m =
     (let decoded = oss_init ''Message received:\<newline>'';
          d1 = oss_put ''\<newline>Type: '' (oss_put (show_nat (unat (cm_id m))) (oss_put ''Id:   '' decoded));
          d2 = oss_put (type_name (cm_type m)) d1;
          d3 = oss_put ''\<newline>'' (oss_put (cm_text m) (oss_put ''\<newline>'' d2))
      in fst d3)"

subsection \<open>The blocking interface\<close>

text \<open>
  The peer of a blocking socket: the bytes still to come and the code its stream ends with.
  \<^verbatim>\<open>asio::read\<close> fills the buffer or stops at the end of the stream.
\<close>

type_synonym sync_peer = "string \<times> error_code"

definition sync_read :: "nat \<Rightarrow> sync_peer \<Rightarrow> string \<times> error_code \<times> sync_peer" where
  "sync_read n = (\<lambda>(s, ec). if n \<le> length s then (take n s, no_error, (drop n s, ec)) else (s, ec, ([], ec)))"

definition sync_step ::
    "extlib \<Rightarrow> nat \<Rightarrow> stream \<Rightarrow> stream \<Rightarrow> sync_peer \<times> logw \<Rightarrow> (sync_peer \<times> logw, bool) run" where
  "sync_step L fps out errorOut = (\<lambda>(peer, lw).
     case sync_read (min fps RECV_BUFFER_SIZE) peer of
       (recvBuffer, error, peer1) \<Rightarrow>
         if error = asio_eof L then (Ret False, (peer1, endl out (put out ''\<newline>Connection closed cleanly by peer'' lw)))
         else if failed error then (Throw (SystemError error), (peer1, lw))
         else if length recvBuffer \<noteq> fps
         then (AssertFail ''readLen == _FRAME_PREFIX_SIZE'', (peer1, lw))
         else
           (case pb_FramePrefix_ParseFromArray L recvBuffer (int (length recvBuffer)) of
              (ok, prefix) \<Rightarrow>
                if \<not> ok then (Ret False, (peer1, endl errorOut (put errorOut ''Failed to parse frame prefix'' lw)))
                else
                  (let messageSize = decodeMessageSize prefix;
                       lw1 = endl out (put out (''DBG: size of message to come: '' @ show_nat messageSize) lw)
                   in case sync_read (min messageSize RECV_BUFFER_SIZE) peer1 of
                        (recvBuffer, error, peer2) \<Rightarrow>
                          if error = asio_eof L
                          then (Ret False, (peer2, endl out (put out ''\<newline>Connection closed cleanly by peer'' lw1)))
                          else if failed error then (Throw (SystemError error), (peer2, lw1))
                          else if length recvBuffer \<noteq> messageSize
                          then (AssertFail ''readLen == messageSize'', (peer2, lw1))
                          else
                            (case pb_ChatMessage_ParseFromArray L recvBuffer (int (length recvBuffer)) of
                               None \<Rightarrow> (Ret True, (peer2, endl errorOut (put errorOut ''Failed to parse chat message'' lw1)))
                             | Some message \<Rightarrow> (Ret True, (peer2, put out (decodeMessage message) lw1))))))"

text \<open>
  The loop repeats the step until it breaks. \<open>None\<close> is a loop that has not ended after
  \<open>fuel\<close> steps.
\<close>

fun receiveInfinitelySync ::
    "nat \<Rightarrow> extlib \<Rightarrow> nat \<Rightarrow> stream \<Rightarrow> stream \<Rightarrow> sync_peer \<times> logw \<Rightarrow> (sync_peer \<times> logw, unit) run option" where
  "receiveInfinitelySync 0 L fps out errorOut st = None"
| "receiveInfinitelySync (Suc fuel) L fps out errorOut st =
     (case sync_step L fps out errorOut st of
        (Ret goOn, st') \<Rightarrow> if goOn then receiveInfinitelySync fuel L fps out errorOut st' else Some (Ret (), st')
      | (Throw x, st') \<Rightarrow> Some (Throw x, st')
      | (AssertFail m, st') \<Rightarrow> Some (AssertFail m, st')
      | (Undefined m, st') \<Rightarrow> Some (Undefined m, st'))"

subsection \<open>Lemmas: the blocking loop\<close>

lemma sync_read_length: "sync_read n (s, ec) = (d, e, (s', ec')) \<Longrightarrow> length s' = length s - length d \<and> ec' = ec"
  by (auto simp: sync_read_def split: if_splits)

lemma sync_step_shrinks:
  assumes "0 < fps" and "sync_step L fps out errorOut ((s, ec), lw) = (Ret True, ((s', ec'), lw'))"
  shows "length s' < length s"
proof -
  obtain d e s1 ec1 where r1: "sync_read (min fps RECV_BUFFER_SIZE) (s, ec) = (d, e, (s1, ec1))"
    by (metis prod.collapse)
  with assms(2) have "length d = fps"
    by (auto simp: sync_step_def split: if_splits)
  moreover have "length s1 = length s - length d" and "d \<noteq> [] \<Longrightarrow> s \<noteq> []"
    using r1 by (auto simp: sync_read_def split: if_splits)
  ultimately have l1: "length s1 < length s" using assms(1) by (cases d) auto
  obtain d2 e2 s2 ec2 n where "sync_read n (s1, ec1) = (d2, e2, (s2, ec2))" "s' = s2"
    using assms(2) r1 by (auto simp: sync_step_def Let_def split: if_splits prod.splits option.splits)
  with l1 show ?thesis using sync_read_length [of n s1 ec1] by auto
qed

text \<open>
  How the loop can end on a stream that ends with an error code: it breaks, it throws that code, or a
  message was announced with more bytes than the buffer has and the assertion on its length fails.
\<close>

definition sync_end :: "extlib \<Rightarrow> error_code \<Rightarrow> nat \<Rightarrow> unit outcome \<Rightarrow> bool" where
  "sync_end L ec len out \<longleftrightarrow> out = Ret () \<or> (out = Throw (SystemError ec) \<and> ec \<noteq> asio_eof L) \<or>
     (out = AssertFail ''readLen == messageSize'' \<and> RECV_BUFFER_SIZE < len)"

lemma sync_read_cases:
  assumes "sync_read n (s, ec) = (d, e, p)"
  obtains (full) "n \<le> length s" "d = take n s" "e = no_error" "p = (drop n s, ec)"
    | (short) "length s < n" "d = s" "e = ec" "p = ([], ec)"
  using assms by (auto simp: sync_read_def split: if_splits)

lemma message_size_assertion:
  assumes "sync_read (min n RECV_BUFFER_SIZE) (s, ec) = (d, e, p)" and "\<not> failed e" and "failed ec" and "length d \<noteq> n"
  shows "RECV_BUFFER_SIZE \<le> length s"
  using assms(1)
proof (cases rule: sync_read_cases)
  case full
  with assms(4) show ?thesis by (cases "n \<le> RECV_BUFFER_SIZE") (auto simp: min_def split: if_splits)
qed (use assms(2,3) in simp)

lemma sync_step_ends:
  assumes "0 < fps" and "fps \<le> RECV_BUFFER_SIZE" and "failed ec"
    and "sync_step L fps out errorOut ((s, ec), lw) = (res, ((s', ec'), lw'))"
  shows "ec' = ec \<and> sync_end L ec (length s) (map_outcome (\<lambda>_. ()) res)"
proof -
  obtain d e p where r1: "sync_read fps (s, ec) = (d, e, p)" by (metis prod.collapse)
  then show ?thesis
  proof (cases rule: sync_read_cases)
    case short
    with assms r1 show ?thesis by (auto simp: sync_step_def sync_end_def min_def split: if_splits)
  next
    case full
    obtain ok prefix where pre: "pb_FramePrefix_ParseFromArray L d (int (length d)) = (ok, prefix)" by fastforce
    let ?n = "decodeMessageSize prefix"
    obtain d2 e2 s2 ec2 where "sync_read (min ?n RECV_BUFFER_SIZE) (drop fps s, ec) = (d2, e2, (s2, ec2))"
      by (metis prod.collapse)
    then have r2: "sync_read (min ?n RECV_BUFFER_SIZE) (drop fps s, ec) = (d2, e2, (s2, ec))"
      using sync_read_length by blast
    have "RECV_BUFFER_SIZE < length s" if "\<not> failed e2" "length d2 \<noteq> ?n"
      using message_size_assertion [OF r2 that(1) assms(3) that(2)] assms(1,2) full(1) by simp
    moreover have "e2 = ec \<or> \<not> failed e2" using r2 by (cases rule: sync_read_cases) simp_all
    ultimately show ?thesis
      using assms r1 r2 full pre
      by (auto simp: sync_step_def sync_end_def min_def Let_def split: if_splits option.splits)
  qed
qed

lemma sync_end_mono: "sync_end L ec n out \<Longrightarrow> n \<le> n' \<Longrightarrow> sync_end L ec n' out"
  by (auto simp: sync_end_def)

lemma receiveInfinitelySync_ends:
  assumes "0 < fps" and "fps \<le> RECV_BUFFER_SIZE" and "length s < fuel"
  shows "\<exists>res st'. receiveInfinitelySync fuel L fps out errorOut ((s, ec), lw) = Some (res, st') \<and>
    (failed ec \<longrightarrow> sync_end L ec (length s) res)"
  using assms(3)
proof (induction fuel arbitrary: s ec lw)
  case (Suc fuel)
  obtain res s' ec' lw' where step: "sync_step L fps out errorOut ((s, ec), lw) = (res, ((s', ec'), lw'))"
    by (metis prod.collapse)
  note ends = sync_step_ends [OF assms(1,2) _ step]
  show ?case
  proof (cases "res = Ret True")
    case True
    from sync_step_shrinks [OF assms(1) step [unfolded True]] have shorter: "length s' < length s" .
    with Suc.prems Suc.IH [of s' ec' lw'] obtain res' st' where
      "receiveInfinitelySync fuel L fps out errorOut ((s', ec'), lw') = Some (res', st')"
      "failed ec' \<longrightarrow> sync_end L ec' (length s') res'" by auto
    with step True ends shorter sync_end_mono [of L ec' "length s'" res' "length s"] show ?thesis by auto
  next
    case False
    with step ends show ?thesis by (cases res) auto
  qed
qed simp

text \<open>The framing of the blocking loop: a prefix with a size only. What it shows of a message.\<close>

definition untyped_frame :: "extlib \<Rightarrow> string \<Rightarrow> string" where
  "untyped_frame L body =
     the (pb_SerializeToString L (MFramePrefix (FramePrefix_default\<lparr>fp_size := of_nat (length body)\<rparr>))) @ body"

definition untyped_fits :: "extlib \<Rightarrow> (string \<Rightarrow> bool) \<Rightarrow> ChatMessage \<Rightarrow> bool" where
  "untyped_fits L utf8 m \<longleftrightarrow> pb_SerializeToString L (MChatMessage m) = Some (chat_body L m) \<and>
     chat_body L m \<noteq> [] \<and> length (chat_body L m) \<le> RECV_BUFFER_SIZE \<and> utf8 (cm_text m) \<and> unknown_ok L (cm_unknown m)"

definition shown_message :: "extlib \<Rightarrow> stream \<Rightarrow> ChatMessage \<Rightarrow> logw \<Rightarrow> logw" where
  "shown_message L out m lw =
     put out (''Id:   '' @ show_nat (unat (cm_id m)) @ ''\<newline>Type: '' @ type_name (cm_type m) @ ''\<newline>'' @ cm_text m @ ''\<newline>'')
       (endl out (put out (''DBG: size of message to come: '' @ show_nat (length (chat_body L m))) lw))"

lemma oss_put_written:
  "oss_put s (w @ drop (length w) b, length w) = ((w @ s) @ drop (length (w @ s)) b, length (w @ s))"
  by (simp add: oss_put_def add.commute)

lemma oss_init_written: "oss_init b = ([] @ drop (length ([] :: string)) b, length ([] :: string))"
  by (simp add: oss_init_def)

lemma type_name_length: "4 \<le> length (type_name t)"
  by (simp add: type_name_def)

text \<open>
  The heading never shows: \<^verbatim>\<open>_decodeMessage\<close> makes its stream from the text
  \<^verbatim>\<open>Message received:\<close>, but the stream writes from its beginning, and what is written is always
  longer, so the result is the decoded message alone.
\<close>

lemma decode_overwrites_heading:
  "decodeMessage m = ''Id:   '' @ show_nat (unat (cm_id m)) @ ''\<newline>Type: '' @ type_name (cm_type m) @ ''\<newline>'' @
     cm_text m @ ''\<newline>''"
proof -
  have "1 \<le> length (show_nat (unat (cm_id m)))" by (simp add: Suc_le_eq)
  with type_name_length [of "cm_type m"] show ?thesis
    unfolding decodeMessage_def Let_def oss_init_written oss_put_written by simp
qed

context protobuf
begin

lemma blocking_prefix_size: "cs_FRAME_PREFIX_SIZE (initializeFramingProtocol L initial_statics) = 5"
  by (simp add: initializeFramingProtocol_def initial_statics_def FramePrefix_default_def prefix_size)

lemma untyped_prefix:
  assumes "body \<noteq> []" and "length body \<le> RECV_BUFFER_SIZE"
  obtains pre where "untyped_frame L body = pre @ body" and "length pre = 5"
    and "pb_FramePrefix_ParseFromArray L pre 5 = (True, FramePrefix_default\<lparr>fp_size := of_nat (length body)\<rparr>)"
    and "decodeMessageSize (FramePrefix_default\<lparr>fp_size := of_nat (length body)\<rparr>) = length body"
proof -
  let ?p = "FramePrefix_default\<lparr>fp_size := of_nat (length body)\<rparr>"
  have small: "length body < 2 ^ 32" using assms(2) by (simp add: RECV_BUFFER_SIZE_def)
  then have n: "unat (fp_size ?p) = length body" by (simp add: unat_of_nat take_bit_eq_mod)
  then have "fp_size ?p \<noteq> 0" using assms(1) by (metis length_0_conv unat_0)
  then obtain pre where pre: "pb_SerializeToString L (MFramePrefix ?p) = Some pre" "length pre = 5"
    using prefix_serialize [of ?p] by (auto simp: FramePrefix_default_def)
  from prefix_parse [OF pre(1), of "[]"] pre n show thesis
    by (intro that [of pre]) (simp_all add: untyped_frame_def decodeMessageSize_def)
qed

lemma untyped_frames_length:
  assumes "\<forall>m \<in> set ms. untyped_fits L utf8 m"
  shows "length ms \<le> length (concat (map (\<lambda>m. untyped_frame L (chat_body L m)) ms))"
  using assms
proof (induction ms)
  case (Cons m ms)
  then have "chat_body L m \<noteq> []" by (simp add: untyped_fits_def)
  then have "1 \<le> length (untyped_frame L (chat_body L m))" by (cases "chat_body L m") (simp_all add: untyped_frame_def)
  with Cons show ?case by simp
qed simp

lemma blocking_step:
  assumes "untyped_fits L utf8 m"
  shows "sync_step L 5 out errorOut ((untyped_frame L (chat_body L m) @ s, asio_eof L), lw) =
    (Ret True, ((s, asio_eof L), shown_message L out m lw))"
proof -
  let ?b = "chat_body L m"
  have b: "?b \<noteq> []" "length ?b \<le> RECV_BUFFER_SIZE" using assms by (simp_all add: untyped_fits_def)
  obtain pre where "untyped_frame L ?b = pre @ ?b" "length pre = 5"
    "pb_FramePrefix_ParseFromArray L pre 5 = (True, FramePrefix_default\<lparr>fp_size := of_nat (length ?b)\<rparr>)"
    "decodeMessageSize (FramePrefix_default\<lparr>fp_size := of_nat (length ?b)\<rparr>) = length ?b"
    by (rule untyped_prefix [OF b])
  moreover have "pb_ChatMessage_ParseFromArray L ?b (int (length ?b)) = Some m"
    using chat_parse [of m ?b "[]"] assms by (simp add: untyped_fits_def)
  moreover have "no_error \<noteq> asio_eof L" using eof_failed failed_no_error by metis
  moreover have "min 5 RECV_BUFFER_SIZE = 5" by (simp add: RECV_BUFFER_SIZE_def)
  ultimately show ?thesis using b(2)
    by (simp add: sync_step_def sync_read_def Let_def min_def shown_message_def decode_overwrites_heading)
qed

lemma blocking_run:
  assumes "\<forall>m \<in> set ms. untyped_fits L utf8 m" and "length ms < fuel"
  shows "receiveInfinitelySync fuel L 5 out errorOut ((concat (map (\<lambda>m. untyped_frame L (chat_body L m)) ms), asio_eof L), lw) =
    Some (Ret (), (([], asio_eof L), endl out (put out ''\<newline>Connection closed cleanly by peer'' (fold (shown_message L out) ms lw))))"
  using assms
proof (induction ms arbitrary: fuel lw)
  case Nil
  then show ?case by (cases fuel) (simp_all add: sync_step_def sync_read_def RECV_BUFFER_SIZE_def)
next
  case (Cons m ms)
  then obtain fuel' where "fuel = Suc fuel'" "length ms < fuel'" by (cases fuel) auto
  with Cons blocking_step [of m] show ?case by simp
qed

end

subsection \<open>Lemmas: the asynchronous interface\<close>

text \<open>The client once it is connected: the reader in the frame loop, the writer in its invariant.\<close>

definition client_inv :: "AsyncTcpClient \<Rightarrow> bool" where
  "client_inv c \<longleftrightarrow> Protocol_inv (cl_protocol c) \<and> writer_inv (cl_writer c) \<and>
     maxBufferSize (cl_reader c) = MAX_READ_BUFFER_SIZE_BYTES \<and>
     (if cl_connecting c = None then proto_inv AsyncTcpClient_handleRead_cb (cl_reader c) (cl_protocol c)
      else cl_reader c = AsyncReader_ctor MAX_READ_BUFFER_SIZE_BYTES)"

definition client_ready :: "AsyncTcpClient \<Rightarrow> bool" where
  "client_ready c \<longleftrightarrow> client_inv c \<and> cl_connecting c = None \<and> await_prefix (cl_protocol c) (cl_reader c)"

lemma client_inv_protocol:
  assumes "client_inv c" and "PREFIX_SIZE P = PREFIX_SIZE (cl_protocol c)"
  shows "client_inv (c\<lparr>cl_protocol := P\<rparr>)"
  using assms by (auto simp: client_inv_def Protocol_inv_def proto_inv_def proto_mode_def await_prefix_def split: if_splits)

lemma client_inv_writer: "client_inv c \<Longrightarrow> writer_inv w \<Longrightarrow> client_inv (c\<lparr>cl_writer := w\<rparr>)"
  by (simp add: client_inv_def)

lemma connect_ok:
  assumes "client_inv c" and "cl_connecting c \<noteq> None" and "\<not> failed ec"
  shows "\<exists>c'. AsyncTcpClient_onConnect ec (c, lw) = (Ret (), (c', lw)) \<and> client_ready c' \<and> cl_writer c' = cl_writer c"
proof -
  have inv: "Protocol_inv (cl_protocol c)" "writer_inv (cl_writer c)"
    and rd: "cl_reader c = AsyncReader_ctor MAX_READ_BUFFER_SIZE_BYTES" using assms(1,2) by (auto simp: client_inv_def)
  have ps: "PREFIX_SIZE (cl_protocol c) \<le> MAX_READ_BUFFER_SIZE_BYTES" "MAX_READ_BUFFER_SIZE_BYTES < 2 ^ 64"
    using inv(1) by (simp_all add: Protocol_inv_def FRAME_PREFIX_SIZE_def MAX_READ_BUFFER_SIZE_BYTES_def)
  from start_proto [OF ps, of AsyncTcpClient_handleRead_cb lw] obtain rd'
    where rd': "readAsyncProtoInfOccupy AsyncTcpClient_handleRead_cb (cl_reader c, cl_protocol c, lw) =
        (Ret (), (rd', cl_protocol c, lw))" "proto_mode AsyncTcpClient_handleRead_cb rd' (cl_protocol c)"
      "await_prefix (cl_protocol c) rd'" "maxBufferSize rd' = MAX_READ_BUFFER_SIZE_BYTES"
    unfolding rd by auto
  then have "client_ready (c\<lparr>cl_connecting := None, cl_reader := rd'\<rparr>)"
    using inv by (simp add: client_ready_def client_inv_def proto_inv_def)
  with rd'(1) assms(2,3) show ?thesis by (auto simp: AsyncTcpClient_onConnect_def handleConnect_def receiveInfinitely_def)
qed

context protobuf
begin

lemma client_send_eq:
  assumes "client_inv c" and "pb_SerializeToString L m = Some body" and "framable body"
  shows "AsyncTcpClient_send L m (c, lw) =
    (case AsyncWriter_write (frame L body) (cl_writer c, lw) of
       (w, lw') \<Rightarrow> (Ret (), (c\<lparr>cl_protocol := (cl_protocol c)\<lparr>serFramePrefixCache := ECHO_prefix body\<rparr>, cl_writer := w\<rparr>, lw')))"
  using serialize_eq [OF _ assms(2,3), of "cl_protocol c"] assms(1)
  by (simp add: AsyncTcpClient_send_def client_inv_def)

text \<open>A frame reaches the callback, whatever the callback then does.\<close>

lemma client_reads_frame:
  assumes "client_ready c" and "framable body" and "length body \<le> MAX_READ_BUFFER_SIZE_BYTES"
  shows "\<exists>c1. AsyncTcpClient_onRead L (no_error, FRAME_PREFIX_SIZE, take FRAME_PREFIX_SIZE (frame L body)) (c, lw) =
      (Ret (), (c1, lw)) \<and>
    AsyncTcpClient_onRead L (no_error, length body, body) (c1, lw') =
      andThen (AsyncTcpClient_handleRead L body (c\<lparr>cl_protocol := noted body (cl_protocol c)\<rparr>, lw')) (\<lambda>_ st. (Ret (), st))"
proof -
  let ?rd = "cl_reader c" and ?P = "cl_protocol c"
  let ?c1 = "c\<lparr>cl_reader := expecting body ?rd, cl_protocol := noted body ?P\<rparr>"
  have inv: "Protocol_inv ?P" "maxBufferSize ?rd = MAX_READ_BUFFER_SIZE_BYTES" and await: "await_prefix ?P ?rd"
    and m: "proto_mode AsyncTcpClient_handleRead_cb ?rd ?P"
    using assms(1) by (auto simp: client_ready_def client_inv_def proto_inv_def split: if_splits)
  have s1: "AsyncTcpClient_onRead L (no_error, FRAME_PREFIX_SIZE, take FRAME_PREFIX_SIZE (frame L body)) (c, lw) =
      (Ret (), (?c1, lw))"
    using frame_prefix_step [OF m await inv(1) assms(2), of no_error lw] assms(3) inv(2)
    by (simp add: AsyncTcpClient_onRead_def)
  have "completeRead L (no_error, length body, body) (expecting body ?rd, noted body ?P, lw') =
      (Ret (Call AsyncTcpClient_handleRead_cb body False), (?rd, noted body ?P, lw'))"
    using m await assms(3) inv(2) by (intro frame_message_step) simp_all
  then have "AsyncTcpClient_onRead L (no_error, length body, body) (?c1, lw') =
      andThen (AsyncTcpClient_handleRead L body (c\<lparr>cl_protocol := noted body ?P\<rparr>, lw')) (\<lambda>_ st. (Ret (), st))"
    by (simp add: AsyncTcpClient_onRead_def split_def)
  with s1 show ?thesis by blast
qed

lemma handleRead_response:
  assumes "cm_type m = ChatMessage_ECHO_RESPONSE" and "utf8 (cm_text m)" and "length (cm_text m) + length (cm_unknown m) + 23 < 2 ^ 31" and "unknown_ok L (cm_unknown m)"
    and "fp_type (deserFramePrefixCache (cl_protocol c)) = FramePrefix_ECHO"
  shows "AsyncTcpClient_handleRead L (chat_body L m) (c, lw) =
    (Ret (), (c, log_put (echo_rsp_text m) (log_line ''DBG: handle Echo receive client'' lw)))"
proof -
  have b: "pb_SerializeToString L (MChatMessage m) = Some (chat_body L m)"
    using assms(1) by (intro chat_body_framable [OF assms(3)]) simp
  from deserialize_body [OF assms(5) b assms(2,4)] assms(1) show ?thesis
    by (simp add: AsyncTcpClient_handleRead_def handleClient_def Let_def)
qed

end

subsection \<open>Lemmas: any peer\<close>

text \<open>What a completed read of the client can end in.\<close>

fun client_exn :: "exn \<Rightarrow> bool" where
  "client_exn (RuntimeError m) = (m \<in> {''Wrong frame prefix format. Parse failed'',
     ''Wrong chat message format. Parse failed''})"
| "client_exn x = frame_loop_exn x"

definition client_assertions :: "string set" where
  "client_assertions = {''_deserFramePrefixCache.type() == proto::FramePrefix::ECHO'',
     ''echoMessage->type() == proto::ChatMessage::ECHO_RESPONSE''}"

fun client_step_ok :: "(client_state, unit) run \<Rightarrow> bool" where
  "client_step_ok (Ret u, (c, lw)) = client_inv c"
| "client_step_ok (Throw x, (c, lw)) = client_exn x"
| "client_step_ok (AssertFail m, (c, lw)) = (m \<in> client_assertions)"
| "client_step_ok (Undefined m, st) = False"

lemma frame_loop_client_exn: "frame_loop_exn x \<Longrightarrow> client_exn x"
  by (cases x) auto

lemma client_handleRead_step:
  assumes "client_inv c"
  shows "client_step_ok (AsyncTcpClient_handleRead L data (c, lw))"
proof (cases rule: deserialize_cases [of L data "int (length data)" "cl_protocol c"])
  case (message m)
  then show ?thesis using assms
    by (simp add: AsyncTcpClient_handleRead_def handleClient_def Let_def client_assertions_def)
qed (simp_all add: AsyncTcpClient_handleRead_def client_assertions_def)

lemma client_inv_reader:
  assumes "client_inv c" and "cl_connecting c = None" and "proto_inv AsyncTcpClient_handleRead_cb rd P"
    and "PREFIX_SIZE P = PREFIX_SIZE (cl_protocol c)" and "maxBufferSize rd = maxBufferSize (cl_reader c)"
  shows "client_inv (c\<lparr>cl_reader := rd, cl_protocol := P\<rparr>)"
  using assms by (simp add: client_inv_def Protocol_inv_def)

lemma client_onRead_step:
  assumes "client_inv c" and "completion_ok e (cl_reader c)"
  shows "client_step_ok (AsyncTcpClient_onRead L e (c, lw))"
proof -
  have conn: "cl_connecting c = None"
    using assms by (auto simp: client_inv_def AsyncReader_ctor_def completion_ok_def split: if_splits)
  obtain res rd P lw' where r: "completeRead L e (cl_reader c, cl_protocol c, lw) = (res, (rd, P, lw'))"
    by (cases "completeRead L e (cl_reader c, cl_protocol c, lw)") auto
  have "proto_inv AsyncTcpClient_handleRead_cb (cl_reader c) (cl_protocol c)"
    using assms(1) conn by (simp add: client_inv_def)
  from proto_step [OF this assms(2), of L lw] r
  have ok: "proto_step_ok AsyncTcpClient_handleRead_cb (maxBufferSize (cl_reader c)) (PREFIX_SIZE (cl_protocol c))
      (res, (rd, P, lw'))" by simp
  show ?thesis
  proof (cases res)
    case (Ret d)
    let ?c = "c\<lparr>cl_reader := rd, cl_protocol := P\<rparr>"
    from ok Ret have inv: "client_inv ?c" by (intro client_inv_reader [OF assms(1) conn]) auto
    from ok Ret consider "d = NoCall" | data where "d = Call AsyncTcpClient_handleRead_cb data False" by auto
    then show ?thesis
    proof cases
      case 1
      with r Ret inv show ?thesis by (simp add: AsyncTcpClient_onRead_def)
    next
      case 2
      obtain res' c' lw'' where h: "AsyncTcpClient_handleRead L data (?c, lw') = (res', (c', lw''))"
        by (cases "AsyncTcpClient_handleRead L data (?c, lw')") auto
      with client_handleRead_step [OF inv, of L data lw'] r Ret 2 show ?thesis
        by (cases res') (simp_all add: AsyncTcpClient_onRead_def)
    qed
  qed (use ok r frame_loop_client_exn in \<open>auto simp: AsyncTcpClient_onRead_def\<close>)
qed

lemma client_onWrite_step:
  assumes "client_inv c"
  shows "client_step_ok (AsyncTcpClient_onWrite L ec n (c, lw))"
proof -
  have "writer_inv (cl_writer c)" using assms by (simp add: client_inv_def)
  then show ?thesis
    by (cases rule: completeWrite_cases [of "cl_writer c" L ec n lw])
      (simp_all add: AsyncTcpClient_onWrite_def client_inv_writer [OF assms])
qed

lemma client_reads_response:
  assumes "protobuf L utf8" and "client_ready c" and "cm_type m = ChatMessage_ECHO_RESPONSE"
    and "utf8 (cm_text m)" and "length (cm_text m) + length (cm_unknown m) + 23 \<le> MAX_READ_BUFFER_SIZE_BYTES" and "unknown_ok L (cm_unknown m)"
  shows "\<exists>c1 c'. AsyncTcpClient_onRead L
        (no_error, FRAME_PREFIX_SIZE, take FRAME_PREFIX_SIZE (frame L (chat_body L m))) (c, lw) = (Ret (), (c1, lw)) \<and>
    AsyncTcpClient_onRead L (no_error, length (chat_body L m), chat_body L m) (c1, lw) =
      (Ret (), (c', log_put (''ECHO_RSP id:'' @ show_nat (unat (cm_id m)) @ ''  text: \"\<newline>'' @ cm_text m @ ''\<newline>\"\<newline>'')
         (log_line ''DBG: handle Echo receive client'' lw))) \<and> client_ready c'"
proof -
  let ?b = "chat_body L m"
  let ?c' = "c\<lparr>cl_protocol := noted ?b (cl_protocol c)\<rparr>"
  have len: "length (cm_text m) + length (cm_unknown m) + 23 < 2 ^ 31" "cm_type m \<noteq> 0"
    using assms(3,5) by (simp_all add: MAX_READ_BUFFER_SIZE_BYTES_def)
  note b = protobuf.chat_body_framable [OF assms(1) len]
  have "length ?b \<le> MAX_READ_BUFFER_SIZE_BYTES" using b(3) assms(5) by simp
  from protobuf.client_reads_frame [OF assms(1,2) b(2) this, of lw lw] obtain c1 where
    c1: "AsyncTcpClient_onRead L (no_error, FRAME_PREFIX_SIZE, take FRAME_PREFIX_SIZE (frame L ?b)) (c, lw) = (Ret (), (c1, lw))"
      "AsyncTcpClient_onRead L (no_error, length ?b, ?b) (c1, lw) =
        andThen (AsyncTcpClient_handleRead L ?b (?c', lw)) (\<lambda>_ st. (Ret (), st))" by blast
  have h: "AsyncTcpClient_handleRead L ?b (?c', lw) =
      (Ret (), (?c', log_put (echo_rsp_text m) (log_line ''DBG: handle Echo receive client'' lw)))"
    by (rule protobuf.handleRead_response [OF assms(1,3,4) len(1) assms(6)]) simp
  have "client_ready ?c'"
    using assms(2) client_inv_protocol [of c "noted ?b (cl_protocol c)"]
    by (auto simp: client_ready_def await_prefix_def)
  with c1 h show ?thesis by (auto simp: echo_rsp_text_def)
qed

subsection \<open>A connected client\<close>

definition connected_client :: AsyncTcpClient where
  "connected_client = \<lparr>cl_protocol = wire_protocol, cl_writer = AsyncWriter_ctor,
     cl_reader = \<lparr>maxBufferSize = MAX_READ_BUFFER_SIZE_BYTES, callback = Some AsyncTcpClient_handleRead_cb,
       protocolSet = True, readBuffer = [], readInProgress = True,
       pendingReads = [(AsyncRead FRAME_PREFIX_SIZE, HandleReadProtoFramePrefixFinished True)]\<rparr>,
     cl_connecting = None\<rparr>"

lemma connected_client_ready: "client_ready connected_client"
  by (simp add: client_ready_def client_inv_def connected_client_def Protocol_inv_def writer_inv_def AsyncWriter_ctor_def
      proto_inv_def proto_mode_def await_prefix_def MAX_READ_BUFFER_SIZE_BYTES_def FRAME_PREFIX_SIZE_def)

definition sample_reply :: ChatMessage where
  "sample_reply = \<lparr>cm_id = 1, cm_text = ''hi'', cm_type = ChatMessage_ECHO_RESPONSE, cm_unknown = []\<rparr>"

subsection \<open>Properties\<close>

text \<open>
  C34. How the blocking receive loop ends: with the prefix size that the constructor has set it makes
  at most one iteration more than the stream has bytes. On a stream that the peer ends, with the end
  of file or another error code, the loop either breaks and returns, or throws that error code, which
  is then not the end of file, or the assertion on the length of a message fails; the last only on a
  stream of more than 128 bytes. So every stream of at most 128 bytes that ends with the end of file
  makes it return.
\<close>

theorem blocking_receive_ends:
  assumes "protobuf L utf8" and "fps = cs_FRAME_PREFIX_SIZE (initializeFramingProtocol L initial_statics)"
  shows "\<exists>res st'. receiveInfinitelySync (Suc (length s)) L fps out errorOut ((s, ec), lw) = Some (res, st') \<and>
    (failed ec \<longrightarrow> res = Ret () \<or> (res = Throw (SystemError ec) \<and> ec \<noteq> asio_eof L) \<or>
       (res = AssertFail ''readLen == messageSize'' \<and> 128 < length s))"
proof -
  have "fps = 5" using assms(2) protobuf.blocking_prefix_size [OF assms(1)] by simp
  then show ?thesis
    using receiveInfinitelySync_ends [of fps s "Suc (length s)" L out errorOut ec lw]
    by (simp add: RECV_BUFFER_SIZE_def sync_end_def del: receiveInfinitelySync.simps)
qed

theorem blocking_receive_ends_witness:
  "\<exists>st'. receiveInfinitelySync (Suc (length ''abcdefg'')) wire_lib
     (cs_FRAME_PREFIX_SIZE (initializeFramingProtocol wire_lib initial_statics)) Cout Cerr
     ((''abcdefg'', asio_eof wire_lib), initial_logw) = Some (Ret (), st')"
  using blocking_receive_ends [OF wire.protobuf_axioms refl, of "''abcdefg''" Cout Cerr "asio_eof wire_lib" initial_logw]
    wire.eof_failed
  by (auto simp del: receiveInfinitelySync.simps)

text \<open>
  C35. The blocking receive loop shows every message of a stream in its own framing: if the stream is
  a sequence of messages of at most 128 bytes, each behind a prefix that has a size and no type, then
  each is shown with its identifier, type and text, in order, and the loop ends with the note that
  the peer closed the connection. Its prefix has 5 bytes: that is not the framing of the rest of the
  program, whose prefixes carry a type and have 10.
\<close>

theorem blocking_receive_shows_messages:
  assumes "protobuf L utf8" and "fps = cs_FRAME_PREFIX_SIZE (initializeFramingProtocol L initial_statics)"
    and "\<forall>m \<in> set ms. untyped_fits L utf8 m"
    and "s = concat (map (\<lambda>m. untyped_frame L (chat_body L m)) ms)"
  shows "receiveInfinitelySync (Suc (length s)) L fps out errorOut ((s, asio_eof L), lw) =
    Some (Ret (), (([], asio_eof L), endl out (put out ''\<newline>Connection closed cleanly by peer'' (fold (shown_message L out) ms lw)))) \<and>
    fps = 5 \<and> (\<forall>P. Protocol_ctor L FRAMING_PROTOBUF_SIZE_TYPE = Ret P \<longrightarrow> getFramePrefixSize P = 10)"
proof -
  have "fps = 5" using assms(2) protobuf.blocking_prefix_size [OF assms(1)] by simp
  moreover have "length ms < Suc (length s)"
    using protobuf.untyped_frames_length [OF assms(1,3)] unfolding assms(4) by simp
  ultimately show ?thesis
    using protobuf.blocking_run [OF assms(1,3), of "Suc (length s)" out errorOut lw] protobuf.Protocol_ctor_eq [OF assms(1)] assms(4)
    by (auto simp: getFramePrefixSize_def FRAME_PREFIX_SIZE_def)
qed

theorem blocking_receive_shows_messages_witness:
  "receiveInfinitelySync (Suc (length (untyped_frame wire_lib (chat_body wire_lib sample_reply)))) wire_lib
     (cs_FRAME_PREFIX_SIZE (initializeFramingProtocol wire_lib initial_statics)) Cout Cerr
     ((untyped_frame wire_lib (chat_body wire_lib sample_reply), asio_eof wire_lib), initial_logw) =
    Some (Ret (), (([], asio_eof wire_lib), endl Cout (put Cout ''\<newline>Connection closed cleanly by peer''
      (shown_message wire_lib Cout sample_reply initial_logw))))"
proof -
  have r: "length (cm_text sample_reply) + length (cm_unknown sample_reply) + 23 < 2 ^ 31" "cm_type sample_reply \<noteq> 0"
    "length (cm_text sample_reply) + length (cm_unknown sample_reply) + 23 \<le> RECV_BUFFER_SIZE"
    by (simp_all add: sample_reply_def RECV_BUFFER_SIZE_def)
  have fits: "\<forall>m \<in> set [sample_reply]. untyped_fits wire_lib valid_utf8 m"
    using wire.chat_body_framable [OF r(1,2)] r(3) wire.utf8_ascii [of "cm_text sample_reply"]
    by (simp add: untyped_fits_def framable_def sample_reply_def)
  from blocking_receive_shows_messages [OF wire.protobuf_axioms refl fits refl, of Cout Cerr initial_logw, THEN conjunct1] show ?thesis
    by (simp del: receiveInfinitelySync.simps)
qed

text \<open>
  A message announced with more than 128 bytes aborts the blocking loop: the buffer view is cut
  to the size of the array, the read succeeds with 128 bytes, and the assertion on its length fails.
\<close>

lemma blocking_receive_aborts_on_long_message:
  assumes "protobuf L utf8" and "pb_FramePrefix_ParseFromArray L p (int (length p)) = (True, prefix)"
    and "length p \<le> RECV_BUFFER_SIZE" and "RECV_BUFFER_SIZE < unat (fp_size prefix)" and "RECV_BUFFER_SIZE \<le> length s"
  shows "\<exists>st. receiveInfinitelySync (Suc fuel) L (length p) out errorOut ((p @ s, ec), lw) =
    Some (AssertFail ''readLen == messageSize'', st)"
proof -
  have ne: "no_error \<noteq> asio_eof L" using protobuf.eof_failed [OF assms(1)] failed_no_error by metis
  show ?thesis using assms(2-5) ne
    by (simp add: sync_step_def sync_read_def decodeMessageSize_def Let_def min_def)
qed

end
