(* ===== verification/Command_Dispatcher.thy ===== *)
theory Command_Dispatcher
  imports AsyncTcpClient
begin

text \<open>
  The client's commands: \<^verbatim>\<open>cmd::CommandDispatcher\<close> with the string helpers of
  \<^verbatim>\<open>acs::misc\<close> (\<^verbatim>\<open>client/src/cmd/CommandDispatcher.cpp\<close>) and \<^verbatim>\<open>echo::EchoCommandHandler\<close>
  (\<^verbatim>\<open>client/src/echo/EchoCommandHandler.cpp\<close>). The state is the client, the static counter of
  echo commands and the log.
\<close>

subsection \<open>String helpers\<close>

definition blanks :: string where
  "blanks = [CHR '' '', CHR 0x09]"

text \<open>
  The arithmetic is that of \<^verbatim>\<open>size_t\<close>: on a string of blanks \<^verbatim>\<open>find_last_not_of\<close> is
  \<^verbatim>\<open>npos\<close> and \<^verbatim>\<open>size - npos - 1\<close> wraps around to \<^verbatim>\<open>size\<close>.
\<close>

definition trimWhitespace :: "bool \<Rightarrow> bool \<Rightarrow> string \<Rightarrow> string" where
  "trimWhitespace right left sv =
     (let sv1 = (if left then remove_prefix sv (min (find_first_not_of sv blanks) (sv_size sv)) else sv)
      in if right
         then (let sz = sv_size sv1 in remove_suffix sv1 (min (sz - find_last_not_of sv1 blanks - 1) sz))
         else sv1)"

definition startsWith :: "string \<Rightarrow> string \<Rightarrow> bool" where
  "startsWith s p = (rfind_at0 s p = 0)"

subsection \<open>Commands\<close>

type_synonym cmd_state = "AsyncTcpClient \<times> size_t \<times> logw"

text \<open>The dispatcher holds the address of the client; a program has one client, at address 0.\<close>

record CommandDispatcher =
  cd_client :: nat

definition CommandDispatcher_ctor :: "nat \<Rightarrow> CommandDispatcher" where
  "CommandDispatcher_ctor client = \<lparr>cd_client = client\<rparr>"

definition ECHO_CMD_PREFIX :: string where
  "ECHO_CMD_PREFIX = ''>echo''"

definition echo_message :: "size_t \<Rightarrow> string \<Rightarrow> ChatMessage" where
  "echo_message echoCommandId commandString =
     ChatMessage_default\<lparr>cm_id := ucast echoCommandId, cm_text := commandString, cm_type := ChatMessage_ECHO_REQUEST\<rparr>"

definition EchoCommandHandler_handleCommand :: "extlib \<Rightarrow> string \<Rightarrow> cmd_state \<Rightarrow> (cmd_state, unit) run" where
  "EchoCommandHandler_handleCommand L commandString = (\<lambda>(client, echoCommandId, lw).
     case AsyncTcpClient_send L (MChatMessage (echo_message echoCommandId commandString))
            (client, log_line ''DBG: handling echo command...'' lw) of
       (res, (client', lw')) \<Rightarrow>
         andThen (res, (client', echoCommandId, lw')) (\<lambda>_ (client, echoCommandId, lw).
           (Ret (), (client, echoCommandId + 1, lw))))"

definition EchoCommandHandler_handleResult :: "string \<Rightarrow> cmd_state \<Rightarrow> (cmd_state, unit) run" where
  "EchoCommandHandler_handleResult resultString st = (Ret (), st)"

text \<open>
  The virtual functions of \<^verbatim>\<open>cmd::CommandHandler\<close> select by the class of the object; the dispatcher
  has one, a static \<^verbatim>\<open>EchoCommandHandler\<close> without data.
\<close>

datatype command_handler = EchoCommandHandler

fun handleCommand :: "extlib \<Rightarrow> command_handler \<Rightarrow> string \<Rightarrow> cmd_state \<Rightarrow> (cmd_state, unit) run" where
  "handleCommand L EchoCommandHandler = EchoCommandHandler_handleCommand L"

fun handleResult :: "command_handler \<Rightarrow> string \<Rightarrow> cmd_state \<Rightarrow> (cmd_state, unit) run" where
  "handleResult EchoCommandHandler = EchoCommandHandler_handleResult"

definition getEchoHandler :: command_handler where
  [simp]: "getEchoHandler = EchoCommandHandler"

definition dispatchCommand :: "extlib \<Rightarrow> string \<Rightarrow> cmd_state \<Rightarrow> (cmd_state, unit) run" where
  "dispatchCommand L commandString st =
     (let command = trimWhitespace True True commandString
      in if startsWith command ECHO_CMD_PREFIX
         then handleCommand L getEchoHandler
                (trimWhitespace False True (remove_prefix command (sv_size ECHO_CMD_PREFIX))) st
         else (case st of (client, echoCommandId, lw) \<Rightarrow>
                (Ret (), (client, echoCommandId,
                   Logger_logError_message (lw_instance lw) ''ERR: Unsupported command.'' True True lw))))"

definition dispatchResult :: "string \<Rightarrow> cmd_state \<Rightarrow> (cmd_state, unit) run" where
  "dispatchResult resultString st = (Ret (), st)"

subsection \<open>The reference for trimming\<close>

definition trim_left :: "string \<Rightarrow> string" where
  "trim_left s = dropWhile (\<lambda>c. c \<in> set blanks) s"

definition trim_right :: "string \<Rightarrow> string" where
  "trim_right s = rev (trim_left (rev s))"

lemma length_trim_left: "length (trim_left s) \<le> length s"
  by (simp add: trim_left_def length_dropWhile_le)

lemma min_of_nat_size:
  "n < 2 ^ 64 \<Longrightarrow> k \<le> n \<Longrightarrow> min (of_nat k :: size_t) (of_nat n) = of_nat k"
  "min npos (w :: size_t) = w"
  by (simp add: min_def word_le_nat_alt) (rule min_absorb2 [OF word_order.extremum])

lemma remove_prefix_blanks:
  assumes "length s < 2 ^ 64"
  shows "remove_prefix s (min (find_first_not_of s blanks) (sv_size s)) = trim_left s"
proof (cases "length (takeWhile (\<lambda>c. c \<in> set blanks) s) < length s")
  case True
  with assms have "unat (of_nat (length (takeWhile (\<lambda>c. c \<in> set blanks) s)) :: size_t) =
      length (takeWhile (\<lambda>c. c \<in> set blanks) s)" by (intro unat_of_nat_size) linarith
  with True assms show ?thesis
    by (simp add: remove_prefix_def find_first_not_of_def sv_size_def trim_left_def dropWhile_eq_drop min_of_nat_size Let_def)
next
  case False
  then have "trim_left s = []"
    by (metis trim_left_def dropWhile_eq_drop drop_all not_less)
  with False assms show ?thesis
    by (simp add: remove_prefix_def find_first_not_of_def sv_size_def min_of_nat_size Let_def)
qed

lemma remove_suffix_blanks:
  assumes "length s < 2 ^ 64"
  shows "remove_suffix s (min (sv_size s - find_last_not_of s blanks - 1) (sv_size s)) = trim_right s"
proof -
  let ?k = "length (takeWhile (\<lambda>c. c \<in> set blanks) (rev s))"
  have trim: "trim_right s = take (length s - ?k) s"
    by (simp add: trim_right_def trim_left_def dropWhile_eq_drop rev_drop)
  show ?thesis
  proof (cases "?k < length s")
    case True
    have "sv_size s - find_last_not_of s blanks - 1 = of_nat ?k"
    proof -
      have "length s = (length s - ?k - 1) + ?k + 1" using True by simp
      then have "(of_nat (length s) :: size_t) = of_nat (length s - ?k - 1) + of_nat ?k + 1"
        by (metis of_nat_1 of_nat_add)
      with True show ?thesis by (simp add: find_last_not_of_def sv_size_def Let_def)
    qed
    moreover have "unat (of_nat ?k :: size_t) = ?k" using True assms by (intro unat_of_nat_size) linarith
    ultimately show ?thesis using True assms
      by (simp add: remove_suffix_def sv_size_def min_of_nat_size trim)
  next
    case False
    with assms show ?thesis by (simp add: remove_suffix_def sv_size_def find_last_not_of_def trim Let_def)
  qed
qed

lemma trimWhitespace_eq:
  assumes "length s < 2 ^ 64"
  shows "trimWhitespace right left s =
    (if right then trim_right (if left then trim_left s else s) else if left then trim_left s else s)"
proof -
  have "length (trim_left s) < 2 ^ 64" using length_trim_left [of s] assms by linarith
  then show ?thesis using assms
    by (simp add: trimWhitespace_def remove_prefix_blanks remove_suffix_blanks Let_def)
qed

lemma trim_left_Nil [simp]: "trim_left [] = []"
  by (simp add: trim_left_def)

lemma trim_left_blank: "set a \<subseteq> set blanks \<Longrightarrow> trim_left (a @ s) = trim_left s"
  unfolding trim_left_def by (rule dropWhile_append2) blast

lemma trim_right_blank: "set z \<subseteq> set blanks \<Longrightarrow> trim_right (s @ z) = trim_right s"
  by (simp add: trim_right_def trim_left_blank)

lemma trim_left_append: "t \<noteq> [] \<Longrightarrow> trim_left t = t \<Longrightarrow> trim_left (t @ u) = t @ u"
  by (simp add: trim_left_def dropWhile_eq_self_iff hd_append)

lemma trim_right_append: "t \<noteq> [] \<Longrightarrow> trim_right t = t \<Longrightarrow> trim_right (u @ t) = u @ t"
proof -
  assume t: "t \<noteq> []" "trim_right t = t"
  then have "trim_left (rev t) = rev t" by (metis rev_rev_ident trim_right_def)
  with t show ?thesis by (simp add: trim_right_def trim_left_append)
qed

lemma prefix_clean: "trim_left ECHO_CMD_PREFIX = ECHO_CMD_PREFIX" "trim_right ECHO_CMD_PREFIX = ECHO_CMD_PREFIX"
  by (simp_all add: trim_left_def trim_right_def ECHO_CMD_PREFIX_def blanks_def)

text \<open>The command of a line: the prefix is found behind any blanks, the text is what follows it, trimmed.\<close>

lemma dispatchCommand_echo:
  assumes "length s < 2 ^ 64" and "trim_right (trim_left s) = ECHO_CMD_PREFIX @ t"
  shows "dispatchCommand L s st = EchoCommandHandler_handleCommand L (trim_left t) st"
proof -
  have "length (trim_right (trim_left s)) \<le> length s"
    using length_trim_left [of s] length_trim_left [of "rev (trim_left s)"] by (simp add: trim_right_def)
  then have "length t < 2 ^ 64" using assms by simp
  then show ?thesis using assms
    by (simp add: dispatchCommand_def trimWhitespace_eq startsWith_def rfind_at0_def remove_prefix_def sv_size_def
        ECHO_CMD_PREFIX_def)
qed

lemma dispatchCommand_line:
  assumes "set a \<subseteq> set blanks" and "set b \<subseteq> set blanks" and "set z \<subseteq> set blanks"
    and "trim_left t = t" and "trim_right t = t" and "length (a @ ECHO_CMD_PREFIX @ b @ t @ z) < 2 ^ 64"
  shows "dispatchCommand L (a @ ECHO_CMD_PREFIX @ b @ t @ z) st = EchoCommandHandler_handleCommand L t st"
proof -
  let ?u = "if t = [] then [] else b @ t"
  have ne: "ECHO_CMD_PREFIX \<noteq> []" by (simp add: ECHO_CMD_PREFIX_def)
  have "trim_left (a @ ECHO_CMD_PREFIX @ b @ t @ z) = (ECHO_CMD_PREFIX @ b @ t) @ z"
    using trim_left_append [OF ne prefix_clean(1)] assms(1) by (simp add: trim_left_blank)
  then have "trim_right (trim_left (a @ ECHO_CMD_PREFIX @ b @ t @ z)) = trim_right (ECHO_CMD_PREFIX @ b @ t)"
    by (simp only: trim_right_blank [OF assms(3)])
  also have "\<dots> = ECHO_CMD_PREFIX @ ?u"
    using trim_right_append [OF _ assms(5), of "ECHO_CMD_PREFIX @ b"] trim_right_blank [OF assms(2)] prefix_clean(2) by simp
  finally have "dispatchCommand L (a @ ECHO_CMD_PREFIX @ b @ t @ z) st = EchoCommandHandler_handleCommand L (trim_left ?u) st"
    by (rule dispatchCommand_echo [OF assms(6)])
  moreover have "trim_left ?u = t" using assms(2,4) by (simp add: trim_left_blank)
  ultimately show ?thesis by simp
qed

lemma dispatchCommand_other:
  assumes "length s < 2 ^ 64" and "\<nexists>t. trim_right (trim_left s) = ECHO_CMD_PREFIX @ t"
  shows "dispatchCommand L s (client, i, lw) =
    (Ret (), (client, i, Logger_logError_message (lw_instance lw) ''ERR: Unsupported command.'' True True lw))"
proof -
  have "take (length ECHO_CMD_PREFIX) (trim_right (trim_left s)) \<noteq> ECHO_CMD_PREFIX"
    using assms(2) by (metis append_take_drop_id)
  then show ?thesis using assms(1)
    by (simp add: dispatchCommand_def trimWhitespace_eq startsWith_def rfind_at0_def)
qed

subsection \<open>The interface of a command handler\<close>

text \<open>
  A handler, called in a state of its invariant, returns in such a state or throws one of its
  exceptions. The dispatcher keeps the same contract, so a command loop can use either.
\<close>

locale CommandHandler =
  fixes handle_command :: "string \<Rightarrow> 's \<Rightarrow> ('s, unit) run"
    and inv :: "'s \<Rightarrow> bool"
    and fails :: "exn \<Rightarrow> bool"
  assumes handle: "inv s \<Longrightarrow> (\<exists>s'. handle_command t s = (Ret (), s') \<and> inv s') \<or>
      (\<exists>x s'. handle_command t s = (Throw x, s') \<and> fails x)"
begin

fun handle_all :: "string list \<Rightarrow> 's \<Rightarrow> ('s, unit) run" where
  "handle_all [] s = (Ret (), s)"
| "handle_all (t # ts) s = andThen (handle_command t s) (\<lambda>_. handle_all ts)"

lemma handle_all_safe:
  "inv s \<Longrightarrow> (\<exists>s'. handle_all ts s = (Ret (), s') \<and> inv s') \<or> (\<exists>x s'. handle_all ts s = (Throw x, s') \<and> fails x)"
proof (induction ts arbitrary: s)
  case (Cons t ts)
  from handle [OF Cons.prems, of t] show ?case
  proof
    assume "\<exists>s'. handle_command t s = (Ret (), s') \<and> inv s'"
    then obtain s' where "handle_command t s = (Ret (), s')" "inv s'" by blast
    with Cons.IH [of s'] show ?thesis by simp
  qed auto
qed simp

end

definition cmd_inv :: "cmd_state \<Rightarrow> bool" where
  "cmd_inv = (\<lambda>(client, i, lw). client_inv client)"

definition cmd_exn :: "exn \<Rightarrow> bool" where
  "cmd_exn x \<longleftrightarrow> x = RuntimeError ''Failed to serialize chat message''"

lemma client_inv_write:
  assumes "client_inv c" and "AsyncWriter_write data (cl_writer c, lw) = (w, lw')"
  shows "client_inv (c\<lparr>cl_writer := w\<rparr>)"
  using assms(1) writer_inv_write [of "cl_writer c" data lw] assms(2)
  by (intro client_inv_writer) (auto simp: client_inv_def)

context protobuf
begin

lemma echo_command_handler: "CommandHandler (EchoCommandHandler_handleCommand L) cmd_inv cmd_exn"
proof unfold_locales
  fix st t
  assume inv: "cmd_inv st"
  obtain c i lw where st: "st = (c, i, lw)" by (metis prod.collapse)
  let ?lw = "log_line ''DBG: handling echo command...'' lw"
  have c: "client_inv c" "Protocol_inv (cl_protocol c)" using inv st by (simp_all add: cmd_inv_def client_inv_def)
  have "cm_type (echo_message i t) \<noteq> 0" by (simp add: echo_message_def)
  then show "(\<exists>s'. EchoCommandHandler_handleCommand L t st = (Ret (), s') \<and> cmd_inv s') \<or>
      (\<exists>x s'. EchoCommandHandler_handleCommand L t st = (Throw x, s') \<and> cmd_exn x)"
  proof (rule serialize_chat_cases [OF c(2)])
    fix body
    let ?c = "c\<lparr>cl_protocol := (cl_protocol c)\<lparr>serFramePrefixCache := ECHO_prefix body\<rparr>\<rparr>"
    assume s: "serialize L (MChatMessage (echo_message i t)) (cl_protocol c) =
      (Ret (frame L body), (cl_protocol c)\<lparr>serFramePrefixCache := ECHO_prefix body\<rparr>)"
    obtain w lw' where w: "AsyncWriter_write (frame L body) (cl_writer ?c, ?lw) = (w, lw')" by fastforce
    have "client_inv (?c\<lparr>cl_writer := w\<rparr>)"
      by (rule client_inv_write [OF client_inv_protocol [OF c(1)] w]) simp
    then show ?thesis using s w by (simp add: st EchoCommandHandler_handleCommand_def AsyncTcpClient_send_def cmd_inv_def)
  next
    fix P'
    assume "serialize L (MChatMessage (echo_message i t)) (cl_protocol c) =
      (Throw (RuntimeError ''Failed to serialize chat message''), P')"
    then show ?thesis by (simp add: st EchoCommandHandler_handleCommand_def AsyncTcpClient_send_def cmd_exn_def)
  qed
qed

text \<open>An echo command whose message can be serialized, whether the writer is free or not.\<close>

lemma echo_command_sent:
  assumes "client_inv c" and "m = echo_message i t"
    and "pb_SerializeToString L (MChatMessage m) = Some (chat_body L m)" and "framable (chat_body L m)"
  obtains c' lw' where "EchoCommandHandler_handleCommand L t (c, i, lw) = (Ret (), (c', i + 1, lw'))"
    and "client_inv c'" and "cl_reader c' = cl_reader c" and "cl_connecting c' = cl_connecting c"
    and "cl_protocol c' = (cl_protocol c)\<lparr>serFramePrefixCache := ECHO_prefix (chat_body L m)\<rparr>"
    and "pendingWrites (cl_writer c') = (if pendingWrites (cl_writer c) = []
      then [\<lparr>wo_data = frame L (chat_body L m), wo_intact = True\<rparr>] else pendingWrites (cl_writer c))"
    and "\<not> writeInProgress (cl_writer c) \<Longrightarrow> lw' = log_line ''DBG: handling echo command...'' lw"
    and "lw_instance lw' = lw_instance lw"
proof -
  let ?lw = "log_line ''DBG: handling echo command...'' lw"
  let ?P = "(cl_protocol c)\<lparr>serFramePrefixCache := ECHO_prefix (chat_body L m)\<rparr>"
  obtain w lw' where w: "AsyncWriter_write (frame L (chat_body L m)) (cl_writer c, ?lw) = (w, lw')" by fastforce
  have wi: "writer_inv (cl_writer c)" using assms(1) by (simp add: client_inv_def)
  have "pendingWrites w = (if pendingWrites (cl_writer c) = []
      then [\<lparr>wo_data = frame L (chat_body L m), wo_intact = True\<rparr>] else pendingWrites (cl_writer c))"
    using w wi by (auto simp: writer_inv_def AsyncWriter_write_def tryLockWriting_def assign_writeBuffer_def
        doWrite_def clobber_def split: if_splits)
  moreover have "\<not> writeInProgress (cl_writer c) \<Longrightarrow> lw' = ?lw" "lw_instance lw' = lw_instance lw"
    using w by (auto simp: AsyncWriter_write_def tryLockWriting_def Logger_logError_message_def printLog_def Let_def split: if_splits)
  moreover have "EchoCommandHandler_handleCommand L t (c, i, lw) = (Ret (), (c\<lparr>cl_protocol := ?P, cl_writer := w\<rparr>, i + 1, lw'))"
    using client_send_eq [OF assms(1,3,4), of ?lw] w assms(2) by (simp add: EchoCommandHandler_handleCommand_def)
  moreover have "client_inv (c\<lparr>cl_protocol := ?P, cl_writer := w\<rparr>)"
    using client_inv_write [OF client_inv_protocol [OF assms(1), of ?P], of "frame L (chat_body L m)" ?lw w lw'] w by simp
  ultimately show thesis by (intro that [of "c\<lparr>cl_protocol := ?P, cl_writer := w\<rparr>" lw']) simp_all
qed

lemma echo_body:
  assumes "length t + 23 < 2 ^ 31"
  shows "pb_SerializeToString L (MChatMessage (echo_message i t)) = Some (chat_body L (echo_message i t))"
    and "framable (chat_body L (echo_message i t))"
  using assms by (intro chat_body_framable; simp add: echo_message_def ChatMessage_default_def)+

text \<open>A command that returned has been serialized.\<close>

lemma echo_command_returned:
  assumes "client_inv c" and "EchoCommandHandler_handleCommand L t (c, i, lw) = (Ret (), st)"
  shows "pb_SerializeToString L (MChatMessage (echo_message i t)) = Some (chat_body L (echo_message i t))"
    and "framable (chat_body L (echo_message i t))"
proof -
  let ?m = "MChatMessage (echo_message i t)"
  obtain res P where P: "serialize L ?m (cl_protocol c) = (res, P)" by fastforce
  with assms(2) obtain w where "res = Ret w"
    by (cases res) (auto simp: EchoCommandHandler_handleCommand_def AsyncTcpClient_send_def)
  moreover have "Protocol_inv (cl_protocol c)" using assms(1) by (simp add: client_inv_def)
  ultimately obtain body where "pb_SerializeToString L ?m = Some body" "framable body"
    using serialize_RetD [of "cl_protocol c" ?m w] P by auto
  then show "pb_SerializeToString L ?m = Some (chat_body L (echo_message i t))" "framable (chat_body L (echo_message i t))"
    by (simp_all add: chat_body_def)
qed

lemma echo_command_eq:
  assumes "client_inv c" and "\<not> writeInProgress (cl_writer c)" and "length t + 23 < 2 ^ 31"
  shows "\<exists>c'. EchoCommandHandler_handleCommand L t (c, i, lw) =
      (Ret (), (c', i + 1, log_line ''DBG: handling echo command...'' lw)) \<and>
    pendingWrites (cl_writer c') = [\<lparr>wo_data = frame L (chat_body L (echo_message i t)), wo_intact = True\<rparr>] \<and>
    client_inv c' \<and> cl_reader c' = cl_reader c \<and> cl_connecting c' = cl_connecting c \<and>
    PREFIX_SIZE (cl_protocol c') = PREFIX_SIZE (cl_protocol c)"
proof (rule echo_command_sent [OF assms(1) refl echo_body [OF assms(3)], of i lw])
  fix c' lw'
  assume "EchoCommandHandler_handleCommand L t (c, i, lw) = (Ret (), (c', i + 1, lw'))" "client_inv c'"
    "cl_reader c' = cl_reader c" "cl_connecting c' = cl_connecting c"
    "cl_protocol c' = (cl_protocol c)\<lparr>serFramePrefixCache := ECHO_prefix (chat_body L (echo_message i t))\<rparr>"
    "pendingWrites (cl_writer c') = (if pendingWrites (cl_writer c) = []
      then [\<lparr>wo_data = frame L (chat_body L (echo_message i t)), wo_intact = True\<rparr>] else pendingWrites (cl_writer c))"
    "\<not> writeInProgress (cl_writer c) \<Longrightarrow> lw' = log_line ''DBG: handling echo command...'' lw"
  moreover have "pendingWrites (cl_writer c) = []" using assms(1,2) by (simp add: client_inv_def writer_inv_def)
  ultimately show ?thesis using assms(2) by simp
qed

lemma dispatch_handler: "CommandHandler (dispatchCommand L) cmd_inv cmd_exn"
proof unfold_locales
  fix st t
  assume inv: "cmd_inv st"
  show "(\<exists>s'. dispatchCommand L t st = (Ret (), s') \<and> cmd_inv s') \<or>
      (\<exists>x s'. dispatchCommand L t st = (Throw x, s') \<and> cmd_exn x)"
    using CommandHandler.handle [OF echo_command_handler inv] inv
    by (auto simp: dispatchCommand_def Let_def cmd_inv_def)
qed

end

interpretation echo_command: CommandHandler "EchoCommandHandler_handleCommand wire_lib" cmd_inv cmd_exn
  by (rule wire.echo_command_handler)

interpretation dispatcher: CommandHandler "dispatchCommand wire_lib" cmd_inv cmd_exn
  by (rule wire.dispatch_handler)

subsection \<open>Properties\<close>

text \<open>
  C31. Trimming is right, including the wrap-around of its arithmetic on a string of blanks: for
  every string and every choice of sides, \<^verbatim>\<open>trimWhitespace\<close> removes exactly the leading and
  trailing blanks and tabs.
\<close>

theorem trimWhitespace_correct:
  assumes "length s < 2 ^ 64"
  shows "trimWhitespace True True s = trim_right (trim_left s) \<and> trimWhitespace False True s = trim_left s \<and>
    trimWhitespace True False s = trim_right s \<and> trimWhitespace False False s = s"
  using assms by (simp add: trimWhitespace_eq)

theorem trimWhitespace_correct_witness:
  "trimWhitespace True True '' ab  '' = ''ab'' \<and> trimWhitespace True False ''   '' = []"
  using trimWhitespace_correct [of "'' ab  ''"] trimWhitespace_correct [of "''   ''"]
  by (simp add: trim_right_def trim_left_def blanks_def)

text \<open>
  C32. An echo command with a free writer puts exactly one request on the wire: the text as typed,
  with the low 32 bits of the counter as identifier; and the counter goes up.
\<close>

theorem echo_command_sends_request:
  assumes "protobuf L utf8" and "client_inv c" and "\<not> writeInProgress (cl_writer c)" and "length t + 23 < 2 ^ 31"
  shows "\<exists>c'. EchoCommandHandler_handleCommand L t (c, i, lw) =
      (Ret (), (c', i + 1, log_line ''DBG: handling echo command...'' lw)) \<and>
    pendingWrites (cl_writer c') = [\<lparr>wo_data = frame L (chat_body L \<lparr>cm_id = ucast i, cm_text = t,
      cm_type = ChatMessage_ECHO_REQUEST, cm_unknown = []\<rparr>), wo_intact = True\<rparr>] \<and> client_inv c' \<and> cl_reader c' = cl_reader c"
  using protobuf.echo_command_eq [OF assms, of i lw] by (auto simp: echo_message_def ChatMessage_default_def)

theorem echo_command_sends_request_witness:
  "\<exists>c'. EchoCommandHandler_handleCommand wire_lib ''hi'' (connected_client, 4294967296, initial_logw) =
      (Ret (), (c', 4294967297, log_line ''DBG: handling echo command...'' initial_logw)) \<and>
    pendingWrites (cl_writer c') = [\<lparr>wo_data = frame wire_lib (chat_body wire_lib \<lparr>cm_id = 0, cm_text = ''hi'',
      cm_type = ChatMessage_ECHO_REQUEST, cm_unknown = []\<rparr>), wo_intact = True\<rparr>] \<and> client_inv c'"
proof -
  have c: "client_inv connected_client" "\<not> writeInProgress (cl_writer connected_client)"
    using connected_client_ready by (simp_all add: client_ready_def connected_client_def AsyncWriter_ctor_def)
  have wrap: "(4294967296 :: uint32) = 0" by simp
  show ?thesis
    using echo_command_sends_request [OF wire.protobuf_axioms c, of "''hi''" 4294967296 initial_logw]
    by (auto simp: wrap)
qed

text \<open>
  C33. An echo command while a write is outstanding is lost: the message is dropped with a log entry
  and the outstanding write is left alone, but the command counter goes up and the caller is not told.
\<close>

theorem echo_command_dropped_when_busy:
  assumes "protobuf L utf8" and "client_inv c" and "writeInProgress (cl_writer c)" and "length t + 23 < 2 ^ 31"
  shows "\<exists>c'. EchoCommandHandler_handleCommand L t (c, i, lw) =
      (Ret (), (c', i + 1, logError_line ''ERR: Write operation initialized when another is in progress''
         (log_line ''DBG: handling echo command...'' lw))) \<and> cl_writer c' = cl_writer c \<and> cl_reader c' = cl_reader c"
proof -
  let ?m = "echo_message i t" and ?lw = "log_line ''DBG: handling echo command...'' lw"
  have r: "length (cm_text ?m) + length (cm_unknown ?m) + 23 < 2 ^ 31" "cm_type ?m \<noteq> 0"
    using assms(4) by (simp_all add: echo_message_def ChatMessage_default_def)
  from protobuf.client_send_eq [OF assms(1,2) protobuf.chat_body_framable(1,2) [OF assms(1) r], of ?lw] assms(3)
  show ?thesis by (simp add: EchoCommandHandler_handleCommand_def AsyncWriter_write_def tryLockWriting_def)
qed

theorem echo_command_dropped_when_busy_witness:
  "\<exists>c'. EchoCommandHandler_handleCommand wire_lib ''hi''
      (connected_client\<lparr>cl_writer := doWrite (AsyncWriter_ctor\<lparr>writeInProgress := True\<rparr>)\<rparr>, 3, initial_logw) =
      (Ret (), (c', 3 + 1, logError_line ''ERR: Write operation initialized when another is in progress''
         (log_line ''DBG: handling echo command...'' initial_logw))) \<and>
    cl_writer c' = cl_writer (connected_client\<lparr>cl_writer := doWrite (AsyncWriter_ctor\<lparr>writeInProgress := True\<rparr>)\<rparr>) \<and>
    cl_reader c' = cl_reader (connected_client\<lparr>cl_writer := doWrite (AsyncWriter_ctor\<lparr>writeInProgress := True\<rparr>)\<rparr>)"
proof (rule echo_command_dropped_when_busy [OF wire.protobuf_axioms])
  have "client_inv connected_client" using connected_client_ready by (simp add: client_ready_def)
  then show "client_inv (connected_client\<lparr>cl_writer := doWrite (AsyncWriter_ctor\<lparr>writeInProgress := True\<rparr>)\<rparr>)"
    by (rule client_inv_writer) (simp add: writer_inv_def doWrite_def AsyncWriter_ctor_def)
qed (simp_all add: doWrite_def)

end
