(* ===== verification/Client.thy ===== *)
theory Client
  imports Command_Dispatcher Program
begin

text \<open>
  The client program: \<^verbatim>\<open>cmd::AsyncCommandLoop\<close> (\<^verbatim>\<open>client/src/cmd/AsyncCommandLoop.cpp\<close>), which
  hands every line of the standard input to the dispatcher, and \<^verbatim>\<open>client/src/main.cpp\<close>. As in the
  server, an event is the call of one completion handler by \<^verbatim>\<open>io_context::run\<close>.
\<close>

subsection \<open>The command loop\<close>

datatype command_callback = AsyncCommandLoop_line_cb

text \<open>The dispatcher that \<open>al_handler\<close> points to has no state of its own but the address of the client.\<close>

record AsyncCommandLoop =
  al_handler :: CommandDispatcher
  al_reader :: "command_callback AsyncReader"

definition AsyncCommandLoop_run :: "AsyncCommandLoop \<times> logw \<Rightarrow> AsyncCommandLoop \<times> logw" where
  "AsyncCommandLoop_run = (\<lambda>(l, lw).
     case readAsyncUntilDelimInfOccupy AsyncCommandLoop_line_cb CHR 0x0A True (al_reader l, lw) of
       (rd, lw') \<Rightarrow> (l\<lparr>al_reader := rd\<rparr>, lw'))"

text \<open>\<open>assign\<close> gives the error code of attaching a descriptor to Asio, which is thrown.\<close>

definition AsyncCommandLoop_ctor :: "(int \<Rightarrow> error_code) \<Rightarrow> CommandDispatcher \<Rightarrow> logw \<Rightarrow> (logw, AsyncCommandLoop) run" where
  "AsyncCommandLoop_ctor assign handler lw =
     (if failed (assign 0) then (Throw (SystemError (assign 0)), lw)
      else if failed (assign 1) then (Throw (SystemError (assign 1)), lw)
      else (case AsyncCommandLoop_run
                   (\<lparr>al_handler = handler, al_reader = AsyncReader_ctor MAX_READ_BUFFER_SIZE_BYTES\<rparr>, lw) of
              (l, lw') \<Rightarrow> (Ret l, lw')))"

definition setHandler :: "CommandDispatcher \<Rightarrow> AsyncCommandLoop \<Rightarrow> AsyncCommandLoop" where
  "setHandler handler l = l\<lparr>al_handler := handler\<rparr>"

subsection \<open>The event loop\<close>

record client_app =
  ca_client :: AsyncTcpClient
  ca_loop :: AsyncCommandLoop
  ca_echoCommandId :: size_t
  ca_log :: logw

definition on_client :: "(client_state \<Rightarrow> (client_state, unit) run) \<Rightarrow> client_app \<Rightarrow> (client_app, unit) run" where
  "on_client f app =
     (case f (ca_client app, ca_log app) of (res, (c, lw)) \<Rightarrow> (res, app\<lparr>ca_client := c, ca_log := lw\<rparr>))"

text \<open>
  A completed read of the standard input. The reader of the command loop has no protocol object;
  the one passed along is not looked at.
\<close>

definition AsyncCommandLoop_onInput :: "extlib \<Rightarrow> read_event \<Rightarrow> client_app \<Rightarrow> (client_app, unit) run" where
  "AsyncCommandLoop_onInput L e app =
     (case completeRead L e (al_reader (ca_loop app), cl_protocol (ca_client app), ca_log app) of
        (res, (rd, P, lw)) \<Rightarrow>
          andThen (res, app\<lparr>ca_loop := (ca_loop app)\<lparr>al_reader := rd\<rparr>, ca_log := lw\<rparr>) (\<lambda>d app.
            case d of
              NoCall \<Rightarrow> (Ret (), app)
            | Call AsyncCommandLoop_line_cb line reset \<Rightarrow>
                (case dispatchCommand L line (ca_client app, ca_echoCommandId app, ca_log app) of
                   (res', (c, i, lw')) \<Rightarrow>
                     andThen (res', app\<lparr>ca_client := c, ca_echoCommandId := i, ca_log := lw'\<rparr>) (\<lambda>_ app.
                       (Ret (), if reset then app\<lparr>ca_loop := (ca_loop app)\<lparr>al_reader := (al_reader (ca_loop app))\<lparr>callback := None\<rparr>\<rparr>\<rparr>
                                else app)))))"

datatype client_event =
  ConnectDone error_code | SocketRead read_event | SocketWrite error_code nat | InputRead read_event

fun client_event_ok :: "client_app \<Rightarrow> client_event \<Rightarrow> bool" where
  "client_event_ok app (ConnectDone ec) = (cl_connecting (ca_client app) \<noteq> None)"
| "client_event_ok app (SocketRead e) = completion_ok e (cl_reader (ca_client app))"
| "client_event_ok app (SocketWrite ec n) =
     (case pendingWrites (cl_writer (ca_client app)) of [] \<Rightarrow> False | op # ops \<Rightarrow> asio_write_contract op ec n)"
| "client_event_ok app (InputRead e) = completion_ok e (al_reader (ca_loop app))"

fun client_step :: "extlib \<Rightarrow> client_event \<Rightarrow> client_app \<Rightarrow> (client_app, unit) run" where
  "client_step L (ConnectDone ec) app = on_client (AsyncTcpClient_onConnect ec) app"
| "client_step L (SocketRead e) app = on_client (AsyncTcpClient_onRead L e) app"
| "client_step L (SocketWrite ec n) app = on_client (AsyncTcpClient_onWrite L ec n) app"
| "client_step L (InputRead e) app = AsyncCommandLoop_onInput L e app"

fun client_run :: "extlib \<Rightarrow> client_event list \<Rightarrow> client_app \<Rightarrow> (client_app, unit) run" where
  "client_run L [] app = (Ret (), app)"
| "client_run L (e # es) app = andThen (client_step L e app) (\<lambda>_. client_run L es)"

inductive client_reach :: "extlib \<Rightarrow> client_app \<Rightarrow> client_app \<Rightarrow> bool" for L a0 where
  start: "client_reach L a0 a0"
| step: "client_reach L a0 a \<Longrightarrow> client_event_ok a e \<Longrightarrow> client_step L e a = (Ret (), a') \<Longrightarrow> client_reach L a0 a'"

subsection \<open>The program\<close>

definition DEFAULT_REMOTE_HOST :: string where
  "DEFAULT_REMOTE_HOST = ''::1''"

definition DEFAULT_REMOTE_PORT :: port_t where
  "DEFAULT_REMOTE_PORT = 54321"

fun client_finish_main :: "extlib \<Rightarrow> (logw, unit) run \<Rightarrow> process_end \<times> logw" where
  "client_finish_main L (Ret u, lw) = (Running, lw)"
| "client_finish_main L (Throw (SystemError ec), lw) = (Exit 0, logError_line (caught_text L ec) lw)"
| "client_finish_main L (Throw x, lw) = (Terminate x, lw)"
| "client_finish_main L (AssertFail m, lw) = (Abort m, lw)"
| "client_finish_main L (Undefined m, lw) = (UndefinedBehaviour m, lw)"

text \<open>The constructors in the \<^verbatim>\<open>try\<close> block of \<^verbatim>\<open>main\<close>.\<close>

definition client_setup ::
    "extlib \<Rightarrow> (string \<Rightarrow> error_code) \<Rightarrow> (int \<Rightarrow> error_code) \<Rightarrow> string \<Rightarrow> port_t \<Rightarrow> logw \<Rightarrow> (logw, client_app) run" where
  "client_setup L make_address assign remoteHost remotePort lw =
     andThen (Protocol_ctor L FRAMING_PROTOBUF_SIZE_TYPE, lw) (\<lambda>protocol lw.
       andThen (fst (AsyncTcpClient_ctor L make_address protocol remoteHost remotePort initial_statics), lw) (\<lambda>tcpClient lw.
         andThen (AsyncCommandLoop_ctor assign (CommandDispatcher_ctor 0) lw) (\<lambda>loop lw.
           (Ret \<lparr>ca_client = tcpClient, ca_loop = loop, ca_echoCommandId = 0, ca_log = lw\<rparr>, lw))))"

definition remote_host :: "string list \<Rightarrow> string" where
  "remote_host args = (case args of _ # h # _ \<Rightarrow> h | _ \<Rightarrow> DEFAULT_REMOTE_HOST)"

definition client_main ::
    "extlib \<Rightarrow> (string \<Rightarrow> error_code) \<Rightarrow> (int \<Rightarrow> error_code) \<Rightarrow> string list \<Rightarrow> client_event list
      \<Rightarrow> process_end \<times> logw" where
  "client_main L make_address assign args es =
     (let lw = registerInstance std_logger initial_logw;
          remoteHost = remote_host args
      in case port_argument DEFAULT_REMOTE_PORT args of
           None \<Rightarrow> (UndefinedBehaviour ''atoi'', lw)
         | Some remotePort \<Rightarrow>
             client_finish_main L
               (andThen (client_setup L make_address assign remoteHost remotePort lw) (\<lambda>app lw.
                  case client_run L es app of (res, app') \<Rightarrow> (res, ca_log app'))))"

subsection \<open>Invariant\<close>

definition app_inv :: "client_app \<Rightarrow> bool" where
  "app_inv app \<longleftrightarrow> client_inv (ca_client app) \<and>
     waiting_until AsyncCommandLoop_line_cb CHR 0x0A True (al_reader (ca_loop app))"

fun app_exn :: "exn \<Rightarrow> bool" where
  "app_exn (RuntimeError m) = (m \<in> {''Wrong frame prefix format. Parse failed'',
     ''Wrong chat message format. Parse failed'', ''Failed to serialize chat message''})"
| "app_exn x = frame_loop_exn x"

fun app_step_ok :: "(client_app, unit) run \<Rightarrow> bool" where
  "app_step_ok (Ret u, app) = app_inv app"
| "app_step_ok (Throw x, app) = app_exn x"
| "app_step_ok (AssertFail m, app) = (m \<in> client_assertions)"
| "app_step_ok (Undefined m, app) = False"

lemma client_run_append:
  "client_run L (es @ es') app = andThen (client_run L es app) (\<lambda>_. client_run L es')"
proof (induction es arbitrary: app)
  case (Cons e es)
  then show ?case by (cases "client_step L e app", case_tac a) simp_all
qed simp

lemma reader_ctor_fields: "maxBufferSize (AsyncReader_ctor n) = n" "readBuffer (AsyncReader_ctor n) = []"
  by (simp_all add: AsyncReader_ctor_def)

lemma client_app_exn: "client_exn x \<Longrightarrow> app_exn x"
  by (cases x) auto

lemma on_client_step:
  assumes "app_inv app" and "client_step_ok (f (ca_client app, ca_log app))"
  shows "app_step_ok (on_client f app)"
proof -
  obtain res c lw where f: "f (ca_client app, ca_log app) = (res, (c, lw))"
    by (cases "f (ca_client app, ca_log app)") auto
  with assms client_app_exn show ?thesis by (cases res) (simp_all add: on_client_def app_inv_def)
qed

lemma connect_step:
  assumes "client_inv c"
  shows "client_step_ok (AsyncTcpClient_onConnect ec (c, lw))"
proof (cases "cl_connecting c = None \<or> failed ec")
  case True
  then show ?thesis using assms by (auto simp: AsyncTcpClient_onConnect_def handleConnect_def)
next
  case False
  with connect_ok [OF assms, of ec lw] show ?thesis by (auto simp: client_ready_def)
qed

context protobuf
begin

lemma input_line:
  assumes "app_inv app" and "completion_ok (ec, n, data) (al_reader (ca_loop app))" and "\<not> failed ec"
  shows "\<exists>l r. readBuffer (al_reader (ca_loop app)) @ data = l @ CHR 0x0A # r \<and> CHR 0x0A \<notin> set l \<and>
    AsyncCommandLoop_onInput L (ec, n, data) app =
      (case dispatchCommand L l (ca_client app, ca_echoCommandId app, ca_log app) of
         (res, (c, i, lw)) \<Rightarrow>
           (res, app\<lparr>ca_loop := (ca_loop app)\<lparr>al_reader := (al_reader (ca_loop app))\<lparr>readBuffer := r\<rparr>\<rparr>,
              ca_client := c, ca_echoCommandId := i, ca_log := lw\<rparr>))"
proof -
  have "waiting_until AsyncCommandLoop_line_cb CHR 0x0A True (al_reader (ca_loop app))"
    using assms(1) by (simp add: app_inv_def)
  from until_step [OF this assms(2,3), of "cl_protocol (ca_client app)" "ca_log app"] obtain l r where
    "readBuffer (al_reader (ca_loop app)) @ data = l @ CHR 0x0A # r" "CHR 0x0A \<notin> set l"
    "completeRead L (ec, n, data) (al_reader (ca_loop app), cl_protocol (ca_client app), ca_log app) =
      (Ret (Call AsyncCommandLoop_line_cb l False),
       ((al_reader (ca_loop app))\<lparr>readBuffer := r\<rparr>, cl_protocol (ca_client app), ca_log app))" by auto
  then show ?thesis by (intro exI [of _ l] exI [of _ r]) (simp add: AsyncCommandLoop_onInput_def split: prod.splits)
qed

lemma input_step:
  assumes "app_inv app" and "completion_ok e (al_reader (ca_loop app))"
  shows "app_step_ok (AsyncCommandLoop_onInput L e app)"
proof -
  obtain ec n data where e: "e = (ec, n, data)" by (metis prod.collapse)
  show ?thesis
  proof (cases "failed ec")
    case True
    obtain q where "pendingReads (al_reader (ca_loop app)) = [q]"
      using assms(1) by (simp add: app_inv_def waiting_until_def)
    from completeRead_failed [OF True this, of L n data "cl_protocol (ca_client app)" "ca_log app"] True
    show ?thesis by (auto simp: AsyncCommandLoop_onInput_def e)
  next
    case False
    from input_line [OF assms(1) _ False, of n data] assms(2) e obtain l r where
      step: "AsyncCommandLoop_onInput L e app =
        (case dispatchCommand L l (ca_client app, ca_echoCommandId app, ca_log app) of
         (res, (c, i, lw)) \<Rightarrow>
           (res, app\<lparr>ca_loop := (ca_loop app)\<lparr>al_reader := (al_reader (ca_loop app))\<lparr>readBuffer := r\<rparr>\<rparr>,
              ca_client := c, ca_echoCommandId := i, ca_log := lw\<rparr>))" by auto
    have "cmd_inv (ca_client app, ca_echoCommandId app, ca_log app)" using assms(1) by (simp add: cmd_inv_def app_inv_def)
    from CommandHandler.handle [OF dispatch_handler this, of l] step assms(1) show ?thesis
      by (auto simp: cmd_inv_def cmd_exn_def app_inv_def)
  qed
qed

lemma client_step_safe:
  assumes "app_inv app" and "client_event_ok app e"
  shows "app_step_ok (client_step L e app)"
proof -
  have c: "client_inv (ca_client app)" using assms(1) by (simp add: app_inv_def)
  show ?thesis
    using assms(2) on_client_step [OF assms(1)] connect_step [OF c] client_onRead_step [OF c] client_onWrite_step [OF c]
      input_step [OF assms(1)]
    by (cases e) simp_all
qed

lemma client_reach_inv: "client_reach L a0 a \<Longrightarrow> app_inv a0 \<Longrightarrow> app_inv a"
proof (induction rule: client_reach.induct)
  case (step a e a')
  from client_step_safe [OF step.IH [OF step.prems] step.hyps(2)] step.hyps(3) show ?case by simp
qed simp

lemma setup_inv:
  assumes "client_setup L make_address assign host port lw = (Ret app, lw')"
  shows "app_inv app" and "cl_connecting (ca_client app) = Some (host, port)" and "lw' = lw"
    and "cl_writer (ca_client app) = AsyncWriter_ctor" and "readBuffer (al_reader (ca_loop app)) = []"
    and "maxBufferSize (al_reader (ca_loop app)) = MAX_READ_BUFFER_SIZE_BYTES" and "ca_log app = lw"
proof -
  let ?rd = "(AsyncReader_ctor MAX_READ_BUFFER_SIZE_BYTES :: command_callback AsyncReader)
    \<lparr>readInProgress := True, callback := Some AsyncCommandLoop_line_cb,
     pendingReads := [(AsyncReadUntil MAX_READ_BUFFER_SIZE_BYTES CHR 0x0A, HandleReadUntilInfNoUnlockLoopstep CHR 0x0A True)]\<rparr>"
  have run: "AsyncCommandLoop_run (\<lparr>al_handler = h, al_reader = AsyncReader_ctor MAX_READ_BUFFER_SIZE_BYTES\<rparr>, lw) =
      (\<lparr>al_handler = h, al_reader = ?rd\<rparr>, lw)" for h lw
    by (simp add: AsyncCommandLoop_run_def readAsyncUntilDelimInfOccupy_def tryLockReading_def AsyncReader_ctor_def
        doReadUntilInfinitelyNoUnlock_def start_read_def)
  have "waiting_until AsyncCommandLoop_line_cb CHR 0x0A True ?rd"
    by (simp add: waiting_until_def AsyncReader_ctor_def MAX_READ_BUFFER_SIZE_BYTES_def)
  with assms show "app_inv app" "cl_connecting (ca_client app) = Some (host, port)" "lw' = lw"
    "cl_writer (ca_client app) = AsyncWriter_ctor" "readBuffer (al_reader (ca_loop app)) = []"
    "maxBufferSize (al_reader (ca_loop app)) = MAX_READ_BUFFER_SIZE_BYTES" "ca_log app = lw"
    by (auto simp: client_setup_def Protocol_ctor_eq AsyncTcpClient_ctor_def AsyncCommandLoop_ctor_def run Let_def
        app_inv_def client_inv_def Protocol_inv_def writer_inv_ctor reader_ctor_fields split: if_splits)
qed

lemma setup_returns:
  assumes "\<not> failed (make_address host)" and "\<not> failed (assign 0)" and "\<not> failed (assign 1)"
  shows "\<exists>app. client_setup L make_address assign host port lw = (Ret app, lw)"
  using assms by (simp add: client_setup_def Protocol_ctor_eq AsyncTcpClient_ctor_def AsyncCommandLoop_ctor_def Let_def
      AsyncCommandLoop_run_def readAsyncUntilDelimInfOccupy_def tryLockReading_def AsyncReader_ctor_def)

lemma setup_cases:
  obtains (ok) app where "client_setup L make_address assign host port lw = (Ret app, lw)" "app_inv app"
  | (fails) ec where "failed ec" "client_setup L make_address assign host port lw = (Throw (SystemError ec), lw)"
proof (cases "failed (make_address host) \<or> failed (assign 0) \<or> failed (assign 1)")
  case True
  then show thesis
    by (intro fails [of "if failed (make_address host) then make_address host else if failed (assign 0) then assign 0 else assign 1"])
      (auto simp: client_setup_def Protocol_ctor_eq AsyncTcpClient_ctor_def AsyncCommandLoop_ctor_def Let_def)
next
  case False
  then obtain app where "client_setup L make_address assign host port lw = (Ret app, lw)" using setup_returns by blast
  with setup_inv(1) [OF this] show thesis by (rule_tac ok)
qed

text \<open>The handlers of the client under the contract of the event loop.\<close>

lemma client_event_loop:
  "event_loop (client_step L) client_event_ok (\<lambda>n. app_inv) app_exn client_assertions (\<lambda>app e. False)"
proof
  fix n app e
  assume "app_inv app" "client_event_ok app e"
  from client_step_safe [OF this]
  show "loop_outcome app_inv app_exn client_assertions False (client_step L e app)"
    by (cases "client_step L e app" rule: app_step_ok.cases) auto
qed

end

lemma client_run_loop: "client_run L es = loop_run (client_step L) es"
  by (induction es) (auto intro!: ext)

interpretation wire_client_loop: event_loop "client_step wire_lib" client_event_ok "\<lambda>n. app_inv" app_exn
  client_assertions "\<lambda>app e. False"
  by (rule wire.client_event_loop)

subsection \<open>The client's part of an exchange\<close>

lemma client_types_echo:
  assumes "protobuf L utf8" and "app_inv app" and "\<not> writeInProgress (cl_writer (ca_client app))"
    and "readBuffer (al_reader (ca_loop app)) = []" and "maxBufferSize (al_reader (ca_loop app)) = MAX_READ_BUFFER_SIZE_BYTES"
    and "set a \<subseteq> set blanks" and "set b \<subseteq> set blanks" and "set z \<subseteq> set blanks"
    and "trim_left t = t" and "trim_right t = t" and "CHR 0x0A \<notin> set t"
    and "length (a @ ECHO_CMD_PREFIX @ b @ t @ z) < MAX_READ_BUFFER_SIZE_BYTES"
    and "line = (a @ ECHO_CMD_PREFIX @ b @ t @ z) @ [CHR 0x0A]"
  shows "\<exists>c. client_step L (InputRead (no_error, length line, line)) app =
      (Ret (), app\<lparr>ca_client := c, ca_echoCommandId := ca_echoCommandId app + 1,
         ca_log := log_line ''DBG: handling echo command...'' (ca_log app)\<rparr>) \<and>
    pendingWrites (cl_writer c) = [\<lparr>wo_data = frame L (chat_body L (echo_message (ca_echoCommandId app) t)), wo_intact = True\<rparr>] \<and>
    client_inv c \<and> cl_reader c = cl_reader (ca_client app) \<and> cl_connecting c = cl_connecting (ca_client app) \<and>
    PREFIX_SIZE (cl_protocol c) = PREFIX_SIZE (cl_protocol (ca_client app))"
proof -
  let ?l = "a @ ECHO_CMD_PREFIX @ b @ t @ z" and ?rd = "al_reader (ca_loop app)"
  have nl: "CHR 0x0A \<notin> set ?l" using assms(6-8,11) by (auto simp: blanks_def ECHO_CMD_PREFIX_def)
  have tw: "takeWhile (\<lambda>x. x \<noteq> CHR 0x0A) line = ?l" "CHR 0x0A \<in> set line" "length line = Suc (length ?l)"
    unfolding assms(13) using takeWhile_line [OF nl, of "[]"] by (simp_all del: append_assoc)
  have "completion_ok (no_error, length line, line) ?rd"
    using assms(2,4,5,12) tw by (simp del: length_append add: app_inv_def waiting_until_def completion_ok_def)
  from protobuf.input_line [OF assms(1,2) this failed_no_error] obtain l r
    where lr: "readBuffer ?rd @ line = l @ CHR 0x0A # r"
      and step: "AsyncCommandLoop_onInput L (no_error, length line, line) app =
      (case dispatchCommand L l (ca_client app, ca_echoCommandId app, ca_log app) of
         (res, (c, i, lw)) \<Rightarrow>
           (res, app\<lparr>ca_loop := (ca_loop app)\<lparr>al_reader := ?rd\<lparr>readBuffer := r\<rparr>\<rparr>,
              ca_client := c, ca_echoCommandId := i, ca_log := lw\<rparr>))" by blast
  have "?l @ CHR 0x0A # [] = l @ CHR 0x0A # r" using lr assms(4,13) by simp
  then have l: "l = ?l" "r = []" using nl append_Cons_eq_iff [of "CHR 0x0A" ?l "[]" l r] by auto
  have same: "(ca_loop app)\<lparr>al_reader := ?rd\<lparr>readBuffer := []\<rparr>\<rparr> = ca_loop app" using assms(4) by simp
  have len: "length ?l < 2 ^ 64" "length t + 23 < 2 ^ 31"
    using assms(12) by (simp_all add: MAX_READ_BUFFER_SIZE_BYTES_def)
  have "client_inv (ca_client app)" using assms(2) by (simp add: app_inv_def)
  from protobuf.echo_command_eq [OF assms(1) this assms(3) len(2), of "ca_echoCommandId app" "ca_log app"]
  show ?thesis using step dispatchCommand_line [OF assms(6-10) len(1)] same by (auto simp: l)
qed

lemma client_write_done:
  assumes "protobuf L utf8" and "client_ready (ca_client app)"
    and "pendingWrites (cl_writer (ca_client app)) = [\<lparr>wo_data = F, wo_intact = True\<rparr>]"
  shows "\<exists>c. client_step L (SocketWrite no_error (length F)) app = (Ret (), app\<lparr>ca_client := c\<rparr>) \<and> client_ready c"
proof -
  let ?c = "ca_client app"
  let ?w = "(cl_writer ?c)\<lparr>pendingWrites := [], writeInProgress := False\<rparr>"
  have w: "writer_inv (cl_writer ?c)" using assms(2) by (simp add: client_ready_def client_inv_def)
  have "completeWrite L no_error (length F) (cl_writer ?c, ca_log app) =
      (concat (map wo_data (pendingWrites (cl_writer ?c))), (Ret (), (?w, ca_log app)))"
    by (rule completeWrite_success [OF w assms(3) _ _ protobuf.eof_failed [OF assms(1)]])
      (simp_all add: asio_write_contract_def)
  moreover have "client_ready (?c\<lparr>cl_writer := ?w\<rparr>)"
    using assms(2) client_inv_writer [of ?c ?w] by (simp add: client_ready_def writer_inv_def)
  ultimately show ?thesis by (auto simp: on_client_def AsyncTcpClient_onWrite_def)
qed

lemma client_gets_response:
  assumes "protobuf L utf8" and "client_ready (ca_client app)" and "cm_type m = ChatMessage_ECHO_RESPONSE"
    and "utf8 (cm_text m)" and "length (cm_text m) + length (cm_unknown m) + 23 \<le> MAX_READ_BUFFER_SIZE_BYTES" and "unknown_ok L (cm_unknown m)"
  shows "\<exists>c. client_run L (map SocketRead (frame_events L (chat_body L m))) app =
    (Ret (), app\<lparr>ca_client := c, ca_log := log_put (echo_rsp_text m)
       (log_line ''DBG: handle Echo receive client'' (ca_log app))\<rparr>) \<and> client_ready c"
  using client_reads_response [OF assms, of "ca_log app"]
  by (auto simp: frame_events_def on_client_def echo_rsp_text_def)

subsection \<open>The display\<close>

text \<open>The client shows what it receives on the standard output, through its logger.\<close>

definition display_text :: "client_app \<Rightarrow> string" where
  "display_text app = stream_text (ca_log app) Cout"

subsection \<open>A sample state\<close>

text \<open>A connected client with an empty input buffer, for the witnesses.\<close>

definition sample_app :: client_app where
  "sample_app = \<lparr>ca_client = connected_client,
     ca_loop = \<lparr>al_handler = CommandDispatcher_ctor 0, al_reader = \<lparr>maxBufferSize = MAX_READ_BUFFER_SIZE_BYTES,
       callback = Some AsyncCommandLoop_line_cb, protocolSet = False, readBuffer = [], readInProgress = True,
       pendingReads = [(AsyncReadUntil MAX_READ_BUFFER_SIZE_BYTES CHR 0x0A,
         HandleReadUntilInfNoUnlockLoopstep CHR 0x0A True)]\<rparr>\<rparr>,
     ca_echoCommandId = 0, ca_log = registerInstance std_logger initial_logw\<rparr>"

lemma sample_app_inv: "app_inv sample_app"
  using connected_client_ready
  by (simp add: sample_app_def app_inv_def waiting_until_def client_ready_def MAX_READ_BUFFER_SIZE_BYTES_def)

subsection \<open>Properties\<close>

text \<open>
  The client is safe in every state it can reach from its construction, whatever the server
  sends and the user types: each event leaves the client in its invariant, or ends in an exception of
  Asio, of framing, of parsing or of serializing, or in one of the two assertions on received types.
  No event is undefined.
\<close>

lemma client_step_outcomes:
  assumes "protobuf L utf8" and "client_setup L make_address assign host port lw = (Ret app0, lw')"
    and "client_reach L app0 app" and "client_event_ok app e"
  shows "case client_step L e app of
      (Ret _, app') \<Rightarrow> app_inv app'
    | (Throw x, _) \<Rightarrow> app_exn x
    | (AssertFail m, _) \<Rightarrow> m \<in> {''_deserFramePrefixCache.type() == proto::FramePrefix::ECHO'',
         ''echoMessage->type() == proto::ChatMessage::ECHO_RESPONSE''}
    | (Undefined m, _) \<Rightarrow> False"
proof -
  have inv: "app_inv app"
    by (rule protobuf.client_reach_inv [OF assms(1,3) protobuf.setup_inv(1) [OF assms(1,2)]])
  obtain res app' where "client_step L e app = (res, app')" by fastforce
  with protobuf.client_step_safe [OF assms(1) inv assms(4)] show ?thesis
    by (cases res) (auto simp: client_assertions_def)
qed

text \<open>
  C38. Closing the standard input ends the client as documented: started without arguments, after any
  events that leave the client in its invariant, if the read of the standard input reports an error,
  end of file included, the exception leaves the event loop and \<^verbatim>\<open>main\<close> returns 0.
\<close>

theorem input_eof_ends_client:
  assumes "client_setup L make_address assign DEFAULT_REMOTE_HOST DEFAULT_REMOTE_PORT
      (registerInstance std_logger initial_logw) = (Ret app0, lw)"
    and "client_run L es app0 = (Ret (), app)" and "app_inv app" and "failed ec"
  shows "fst (client_main L make_address assign [] (es @ InputRead (ec, n, data) # es')) = Exit 0"
proof -
  obtain q where q: "pendingReads (al_reader (ca_loop app)) = [q]"
    using assms(3) by (simp add: app_inv_def waiting_until_def)
  obtain rd lw' where "completeRead L (ec, n, data) (al_reader (ca_loop app), cl_protocol (ca_client app), ca_log app) =
      (Throw (SystemError ec), (rd, cl_protocol (ca_client app), lw'))"
    using completeRead_failed [OF assms(4) q] by metis
  then obtain app' where "client_step L (InputRead (ec, n, data)) app = (Throw (SystemError ec), app')"
    by (simp add: AsyncCommandLoop_onInput_def)
  then have "client_run L (es @ InputRead (ec, n, data) # es') app0 = (Throw (SystemError ec), app')"
    by (simp add: client_run_append assms(2))
  then show ?thesis by (simp add: client_main_def remote_host_def port_argument_def assms(1))
qed

theorem input_eof_ends_client_witness:
  "fst (client_main wire_lib (\<lambda>_. no_error) (\<lambda>_. no_error) [] ([] @ [InputRead (asio_eof wire_lib, 0, [])])) = Exit 0"
proof -
  let ?lw = "registerInstance std_logger initial_logw"
  obtain app where s: "client_setup wire_lib (\<lambda>_. no_error) (\<lambda>_. no_error) DEFAULT_REMOTE_HOST DEFAULT_REMOTE_PORT ?lw =
      (Ret app, ?lw)"
    using wire.setup_returns [of "\<lambda>_. no_error" DEFAULT_REMOTE_HOST "\<lambda>_. no_error" DEFAULT_REMOTE_PORT ?lw] by auto
  show ?thesis
    by (rule input_eof_ends_client [OF s _ wire.setup_inv(1) [OF s] wire.eof_failed]) simp
qed

text \<open>
  C11. How a client process can end, whatever its arguments, the system, the server and the user do:
  it keeps running in its invariant; or \<^verbatim>\<open>main\<close> returns 0 after logging an I/O error, a bad address
  or a standard stream that cannot be assigned included; or it is terminated by an exception of
  framing, parsing or serializing, which \<^verbatim>\<open>main\<close> does not catch; or it is aborted by one of the two
  assertions on received types. Nothing is undefined but a port argument that is not an \<^verbatim>\<open>int\<close>.
\<close>

theorem client_main_outcomes:
  assumes "protobuf L utf8"
    and "\<And>remotePort app lw. port_argument DEFAULT_REMOTE_PORT args = Some remotePort \<Longrightarrow>
      client_setup L make_address assign (remote_host args) remotePort (registerInstance std_logger initial_logw) = (Ret app, lw) \<Longrightarrow>
      loop_ok (client_step L) client_event_ok es app"
  shows "case client_main L make_address assign args es of
      (Running, lw) \<Rightarrow> (\<exists>remotePort app0 app. client_run L es app0 = (Ret (), app) \<and> app_inv app \<and> ca_log app = lw \<and>
         client_setup L make_address assign (remote_host args) remotePort (registerInstance std_logger initial_logw) =
           (Ret app0, registerInstance std_logger initial_logw))
    | (Exit n, lw) \<Rightarrow> n = 0 \<and> (\<exists>ec lw'. failed ec \<and> lw = logError_line (caught_text L ec) lw')
    | (Terminate x, lw) \<Rightarrow> app_exn x \<and> (\<forall>ec. x \<noteq> SystemError ec)
    | (Abort m, lw) \<Rightarrow> m \<in> {''_deserFramePrefixCache.type() == proto::FramePrefix::ECHO'',
         ''echoMessage->type() == proto::ChatMessage::ECHO_RESPONSE''}
    | (UndefinedBehaviour m, lw) \<Rightarrow> port_argument DEFAULT_REMOTE_PORT args = None"
proof (cases "port_argument DEFAULT_REMOTE_PORT args")
  case (Some remotePort)
  let ?lw = "registerInstance std_logger initial_logw"
  show ?thesis
  proof (rule protobuf.setup_cases [OF assms(1), of make_address assign "remote_host args" remotePort ?lw])
    fix ec
    assume "failed ec" "client_setup L make_address assign (remote_host args) remotePort ?lw = (Throw (SystemError ec), ?lw)"
    then show ?thesis by (auto simp: client_main_def Some)
  next
    fix app0
    assume built: "client_setup L make_address assign (remote_host args) remotePort ?lw = (Ret app0, ?lw)" and inv: "app_inv app0"
    have outcome: "loop_outcome app_inv app_exn client_assertions
      (\<exists>es1 e es2 s1. es = es1 @ e # es2 \<and> loop_run (client_step L) es1 app0 = (Ret (), s1) \<and> False)
      (loop_run (client_step L) es app0)"
      using inv assms(2) [OF Some built] by (intro event_loop.run_outcome [OF protobuf.client_event_loop [OF assms(1)]])
    obtain res app where run: "loop_run (client_step L) es app0 = (res, app)" by fastforce
    have main: "client_main L make_address assign args es = client_finish_main L (res, ca_log app)"
      by (simp add: client_main_def Some built client_run_loop run)
    show ?thesis
    proof (cases res)
      case (Ret u)
      with outcome run have "app_inv app" by simp
      with run Ret show ?thesis unfolding main Ret client_finish_main.simps prod.case process_end.case client_run_loop
        by (intro exI [of _ remotePort] exI [of _ app0] exI [of _ app]) (simp add: built)
    next
      case (Throw x)
      then show ?thesis using outcome unfolding main run by (cases x) auto
    qed (use outcome in \<open>auto simp: main run client_assertions_def\<close>)
  qed
qed (simp add: client_main_def)

theorem client_main_outcomes_witness:
  "case client_main wire_lib (\<lambda>_. no_error) (\<lambda>_. no_error) [''80'', ''::1''] [ConnectDone no_error] of
      (Running, lw) \<Rightarrow> (\<exists>remotePort app0 app. client_run wire_lib [ConnectDone no_error] app0 = (Ret (), app) \<and> app_inv app \<and> ca_log app = lw \<and>
         client_setup wire_lib (\<lambda>_. no_error) (\<lambda>_. no_error) (remote_host [''80'', ''::1'']) remotePort (registerInstance std_logger initial_logw) =
           (Ret app0, registerInstance std_logger initial_logw))
    | (Exit n, lw) \<Rightarrow> n = 0 \<and> (\<exists>ec lw'. failed ec \<and> lw = logError_line (caught_text wire_lib ec) lw')
    | (Terminate x, lw) \<Rightarrow> app_exn x \<and> (\<forall>ec. x \<noteq> SystemError ec)
    | (Abort m, lw) \<Rightarrow> m \<in> {''_deserFramePrefixCache.type() == proto::FramePrefix::ECHO'',
         ''echoMessage->type() == proto::ChatMessage::ECHO_RESPONSE''}
    | (UndefinedBehaviour m, lw) \<Rightarrow> port_argument DEFAULT_REMOTE_PORT [''80'', ''::1''] = None"
proof (rule client_main_outcomes [OF wire.protobuf_axioms])
  fix remotePort app lw
  assume "client_setup wire_lib (\<lambda>_. no_error) (\<lambda>_. no_error) (remote_host [''80'', ''::1'']) remotePort
    (registerInstance std_logger initial_logw) = (Ret app, lw)"
  from wire.setup_inv(2) [OF this] show "loop_ok (client_step wire_lib) client_event_ok [ConnectDone no_error] app"
    by (auto simp del: client_step.simps split: prod.splits outcome.splits)
qed

end
