(* ===== verification/Client_Stream.thy ===== *)
theory Client_Stream
  imports Client TcpConnection Frame_Stream
begin

text \<open>
  The client on an arbitrary byte stream: its connection as a consumer of frames, for any bytes from
  the server and between whatever the user types and the completions of its own writes.
\<close>

subsection \<open>The reaction\<close>

definition receive_note :: string where
  "receive_note = ''DBG: handle Echo receive client\<newline>''"

text \<open>The text that one message puts on the display, under the prefix it came with.\<close>

definition display_of :: "extlib \<Rightarrow> FramePrefix \<Rightarrow> string \<Rightarrow> string outcome" where
  "display_of L prefix body =
     (if fp_type prefix \<noteq> FramePrefix_ECHO
      then AssertFail ''_deserFramePrefixCache.type() == proto::FramePrefix::ECHO''
      else case pb_ChatMessage_ParseFromArray L body (int (length body)) of
        None \<Rightarrow> Throw (RuntimeError ''Wrong chat message format. Parse failed'')
      | Some m \<Rightarrow>
          if cm_type m \<noteq> ChatMessage_ECHO_RESPONSE
          then AssertFail ''echoMessage->type() == proto::ChatMessage::ECHO_RESPONSE''
          else Ret (receive_note @ echo_rsp_text m))"

text \<open>A message of another type is noted before the assertion on its type fails.\<close>

definition display_end :: "unit outcome \<Rightarrow> string" where
  "display_end out =
     (if out = AssertFail ''echoMessage->type() == proto::ChatMessage::ECHO_RESPONSE'' then receive_note else [])"

subsection \<open>The client's side of a stream\<close>

definition client_at :: "FramePrefix option \<Rightarrow> client_app \<Rightarrow> bool" where
  "client_at q app \<longleftrightarrow> app_inv app \<and> cl_connecting (ca_client app) = None \<and> lw_instance (ca_log app) = std_logger \<and>
     at_position q (cl_reader (ca_client app)) (cl_protocol (ca_client app))"

fun socket_bytes :: "client_event \<Rightarrow> string option" where
  "socket_bytes (SocketRead (ec, n, data)) = Some data"
| "socket_bytes _ = None"

text \<open>What may happen: reads of the socket do not fail; the rest is as Asio reports it.\<close>

fun steady_event :: "client_app \<Rightarrow> client_event \<Rightarrow> bool" where
  "steady_event app (SocketRead (ec, n, data)) = (client_event_ok app (SocketRead (ec, n, data)) \<and> \<not> failed ec)"
| "steady_event app e = client_event_ok app e"

definition socket_waits :: "string \<Rightarrow> client_app \<Rightarrow> bool" where
  "socket_waits unread app = starved unread (pendingReads (cl_reader (ca_client app)))"

text \<open>What a completed read of the socket puts on the display.\<close>

fun displayed :: "extlib \<Rightarrow> client_event \<Rightarrow> client_app \<Rightarrow> string" where
  "displayed L (SocketRead e) app =
     drop (length (display_text app)) (display_text (snd (client_step L (SocketRead e) app)))"
| "displayed L _ app = []"

lemma client_at_reader:
  "client_at q app \<Longrightarrow> reader_at AsyncTcpClient_handleRead_cb q (cl_reader (ca_client app)) (cl_protocol (ca_client app))"
  by (auto simp: client_at_def reader_at_def app_inv_def client_inv_def proto_inv_def)

lemma socket_bytes_Some: "socket_bytes e = Some d \<longleftrightarrow> (\<exists>ec n. e = SocketRead (ec, n, d))"
  by (cases e rule: socket_bytes.cases) auto

lemma steady_ok: "steady_event app e \<Longrightarrow> client_event_ok app e"
  by (cases "(app, e)" rule: steady_event.cases) auto

text \<open>The callback.\<close>

lemma handleRead_displays:
  assumes "lw_instance lw = std_logger"
  obtains lw' where "AsyncTcpClient_handleRead L data (c, lw) =
      (map_outcome (\<lambda>_. ()) (display_of L (deserFramePrefixCache (cl_protocol c)) data), (c, lw'))"
    and "lw_instance lw' = std_logger"
    and "stream_text lw' Cout = stream_text lw Cout @
      (case display_of L (deserFramePrefixCache (cl_protocol c)) data of Ret t \<Rightarrow> t
       | out \<Rightarrow> display_end (map_outcome (\<lambda>_. ()) out))"
proof -
  let ?r = "AsyncTcpClient_handleRead L data (c, lw)"
  have "snd ?r = (c, snd (snd ?r))"
    by (simp add: AsyncTcpClient_handleRead_def deserialize_def handleClient_def Let_def split: option.splits)
  moreover have "fst ?r = map_outcome (\<lambda>_. ()) (display_of L (deserFramePrefixCache (cl_protocol c)) data)"
    by (simp add: AsyncTcpClient_handleRead_def deserialize_def handleClient_def display_of_def Let_def split: option.splits)
  moreover have "lw_instance (snd (snd ?r)) = std_logger"
    using assms by (simp add: AsyncTcpClient_handleRead_def deserialize_def handleClient_def Let_def split: option.splits)
  moreover have "stream_text (snd (snd ?r)) Cout = stream_text lw Cout @
      (case display_of L (deserFramePrefixCache (cl_protocol c)) data of Ret t \<Rightarrow> t
       | out \<Rightarrow> display_end (map_outcome (\<lambda>_. ()) out))"
    using assms by (simp add: AsyncTcpClient_handleRead_def deserialize_def handleClient_def display_of_def display_end_def
        receive_note_def stream_text_log_line stream_text_log_put std_logger_def Let_def split: option.splits)
  ultimately show thesis by (intro that [of "snd (snd ?r)"]) (simp_all add: prod_eq_iff)
qed

text \<open>A completed read of the socket in each position: the new reader and protocol object, and the log.\<close>

definition on_display :: "(string list \<times> FramePrefix option) outcome \<Rightarrow> AsyncTcpClient \<Rightarrow> logw \<Rightarrow> (client_state, unit) run \<Rightarrow> bool" where
  "on_display a c lw = (\<lambda>(res, (c', lw')).
     res = map_outcome (\<lambda>_. ()) a \<and> cl_connecting c' = cl_connecting c \<and> lw_instance lw' = std_logger \<and>
     (case a of
        Ret (ts, q') \<Rightarrow> at_position q' (cl_reader c') (cl_protocol c') \<and> stream_text lw' Cout = stream_text lw Cout @ concat ts
      | _ \<Rightarrow> stream_text lw' Cout = stream_text lw Cout @ display_end res))"

context protobuf
begin

lemma prefix_on_display:
  assumes "reader_at AsyncTcpClient_handleRead_cb None (cl_reader c) (cl_protocol c)"
    and "completion_ok (ec, n, data) (cl_reader c)" and "\<not> failed ec" and "lw_instance lw = std_logger"
  shows "on_display (advance (display_of L) L None data) c lw (AsyncTcpClient_onRead L (ec, n, data) (c, lw))"
proof -
  from prefix_read [OF assms(1-3), of lw "display_of L"] obtain rd P where
    r: "completeRead L (ec, n, data) (cl_reader c, cl_protocol c, lw) =
      (map_outcome (\<lambda>_. NoCall) (advance (display_of L) L None data), (rd, P, lw))" and
    at: "\<And>ts q'. advance (display_of L) L None data = Ret (ts, q') \<Longrightarrow>
      ts = [] \<and> reader_at AsyncTcpClient_handleRead_cb q' rd P" by metis
  have "advance (display_of L) L None data \<noteq> AssertFail m" for m by (simp split: prod.splits)
  with r at assms(4) show ?thesis
    by (cases "advance (display_of L) L None data")
      (auto simp: AsyncTcpClient_onRead_def on_display_def reader_at_def display_end_def simp del: advance.simps)
qed

lemma message_on_display:
  assumes "reader_at AsyncTcpClient_handleRead_cb (Some p) (cl_reader c) (cl_protocol c)"
    and "completion_ok (ec, n, data) (cl_reader c)" and "\<not> failed ec" and "lw_instance lw = std_logger"
  shows "on_display (advance (display_of L) L (Some p) data) c lw (AsyncTcpClient_onRead L (ec, n, data) (c, lw))"
proof -
  from message_read [OF assms(1-3), of lw] obtain rd where
    r: "completeRead L (ec, n, data) (cl_reader c, cl_protocol c, lw) =
      (Ret (Call AsyncTcpClient_handleRead_cb data False), (rd, cl_protocol c, lw))"
    "reader_at AsyncTcpClient_handleRead_cb None rd (cl_protocol c)" "deserFramePrefixCache (cl_protocol c) = p" by metis
  let ?c = "c\<lparr>cl_reader := rd\<rparr>"
  have read: "AsyncTcpClient_onRead L (ec, n, data) (c, lw) = AsyncTcpClient_handleRead L data (?c, lw)"
    using r(1) andThen_unit [of "AsyncTcpClient_handleRead L data (?c, lw)"] by (simp add: AsyncTcpClient_onRead_def split_def)
  from handleRead_displays [OF assms(4), of L data ?c] obtain lw' where
    h: "AsyncTcpClient_handleRead L data (?c, lw) = (map_outcome (\<lambda>_. ()) (display_of L p data), (?c, lw'))"
      "lw_instance lw' = std_logger"
      "stream_text lw' Cout = stream_text lw Cout @
        (case display_of L p data of Ret t \<Rightarrow> t | out \<Rightarrow> display_end (map_outcome (\<lambda>_. ()) out))"
    using r(3) by auto
  show ?thesis unfolding read h(1) using h(2,3) r(2)
    by (cases "display_of L p data") (simp_all add: on_display_def reader_at_def)
qed

lemma client_read_advance:
  assumes "client_at q app" and "steady_event app (SocketRead (ec, n, d))"
  shows "length d = need q \<and>
    (\<exists>app'. client_step L (SocketRead (ec, n, d)) app = (map_outcome (\<lambda>_. ()) (advance (display_of L) L q d), app') \<and>
      (case advance (display_of L) L q d of
         Ret (ts, q') \<Rightarrow> client_at q' app' \<and> displayed L (SocketRead (ec, n, d)) app = concat ts
       | _ \<Rightarrow> displayed L (SocketRead (ec, n, d)) app = display_end (fst (client_step L (SocketRead (ec, n, d)) app))))"
proof -
  let ?e = "SocketRead (ec, n, d)" and ?c = "ca_client app" and ?a = "advance (display_of L) L q d"
  have ok: "completion_ok (ec, n, d) (cl_reader ?c)" "\<not> failed ec" "lw_instance (ca_log app) = std_logger"
    using assms by (simp_all add: client_at_def)
  note rd = client_at_reader [OF assms(1)]
  obtain res c' lw' where r: "AsyncTcpClient_onRead L (ec, n, d) (?c, ca_log app) = (res, (c', lw'))"
    by (cases "AsyncTcpClient_onRead L (ec, n, d) (?c, ca_log app)") auto
  let ?app = "app\<lparr>ca_client := c', ca_log := lw'\<rparr>"
  have step: "client_step L ?e app = (res, ?app)" using r by (simp add: on_client_def)
  have od: "on_display ?a ?c (ca_log app) (res, (c', lw'))"
    using prefix_on_display [OF _ ok] message_on_display [OF _ ok] rd r by (cases q) (simp_all del: advance.simps)
  have safe: "app_step_ok (res, ?app)"
    using client_step_safe [of app ?e] assms step by (simp add: client_at_def del: client_step.simps)
  have "displayed L ?e app = drop (length (stream_text (ca_log app) Cout)) (stream_text lw' Cout)"
    by (simp add: display_text_def step del: client_step.simps)
  with od safe step have "res = map_outcome (\<lambda>_. ()) ?a \<and> (case ?a of
      Ret (ts, q') \<Rightarrow> client_at q' ?app \<and> displayed L ?e app = concat ts | _ \<Rightarrow> displayed L ?e app = display_end res)"
    using assms(1) by (cases ?a) (auto simp: on_display_def client_at_def simp del: displayed.simps client_step.simps)
  with step reader_at_completion(2) [OF rd ok(1,2)] show ?thesis
    by (cases ?a) (auto simp del: client_step.simps displayed.simps)
qed

end

text \<open>The other events leave the reader and its position alone.\<close>

lemma dispatch_keeps:
  assumes "dispatchCommand L l (c, i, lw) = (res, (c', i', lw'))"
  shows "cl_reader c' = cl_reader c" and "cl_connecting c' = cl_connecting c" and "lw_instance lw' = lw_instance lw"
    and "deserFramePrefixCache (cl_protocol c') = deserFramePrefixCache (cl_protocol c)"
    and "PREFIX_SIZE (cl_protocol c') = PREFIX_SIZE (cl_protocol c)"
  using assms
  by (auto simp: dispatchCommand_def EchoCommandHandler_handleCommand_def AsyncTcpClient_send_def serialize_def
      AsyncWriter_write_def tryLockWriting_def Logger_logError_message_def printLog_def Let_def
      split: if_splits option.splits prod.splits)

lemma write_keeps:
  "AsyncTcpClient_onWrite L ec n (c, lw) = (res, (c', lw')) \<Longrightarrow> lw_instance lw' = lw_instance lw \<and>
     cl_reader c' = cl_reader c \<and> cl_connecting c' = cl_connecting c \<and> cl_protocol c' = cl_protocol c"
  by (auto simp: AsyncTcpClient_onWrite_def completeWrite_def handleWriteFinished_def Let_def
      split: list.splits if_splits)

context protobuf
begin

lemma input_keeps:
  assumes "app_inv app" and "completion_ok e (al_reader (ca_loop app))" and "AsyncCommandLoop_onInput L e app = (Ret (), app')"
  shows "lw_instance (ca_log app') = lw_instance (ca_log app)"
    and "cl_connecting (ca_client app') = cl_connecting (ca_client app)"
    and "at_position q (cl_reader (ca_client app')) (cl_protocol (ca_client app')) =
      at_position q (cl_reader (ca_client app)) (cl_protocol (ca_client app))"
proof -
  obtain ec n data where e: "e = (ec, n, data)" by (cases e)
  have "\<not> failed ec"
  proof
    assume "failed ec"
    moreover obtain p where "pendingReads (al_reader (ca_loop app)) = [p]"
      using assms(1) by (simp add: app_inv_def waiting_until_def)
    ultimately show False
      using completeRead_failed [of ec "al_reader (ca_loop app)" p L n data "cl_protocol (ca_client app)" "ca_log app"] assms(3) e
      by (auto simp: AsyncCommandLoop_onInput_def)
  qed
  from input_line [OF assms(1) _ this, of n data] assms(2,3) e obtain l r where
    "(case dispatchCommand L l (ca_client app, ca_echoCommandId app, ca_log app) of
       (res, (c, i, lw)) \<Rightarrow>
         (res, app\<lparr>ca_loop := (ca_loop app)\<lparr>al_reader := (al_reader (ca_loop app))\<lparr>readBuffer := r\<rparr>\<rparr>,
            ca_client := c, ca_echoCommandId := i, ca_log := lw\<rparr>)) = (Ret (), app')" by auto
  then obtain c i lw where "dispatchCommand L l (ca_client app, ca_echoCommandId app, ca_log app) = (Ret (), (c, i, lw))"
    and app': "ca_client app' = c" "ca_log app' = lw" by (auto split: prod.splits)
  note d = dispatch_keeps [OF this(1)]
  show "lw_instance (ca_log app') = lw_instance (ca_log app)"
    "cl_connecting (ca_client app') = cl_connecting (ca_client app)" using d app' by simp_all
  show "at_position q (cl_reader (ca_client app')) (cl_protocol (ca_client app')) =
      at_position q (cl_reader (ca_client app)) (cl_protocol (ca_client app))"
    using d app' by (cases q) (simp_all add: await_prefix_def)
qed

lemma client_other_step:
  assumes "client_at q app" and "steady_event app e" and "socket_bytes e = None" and "client_step L e app = (Ret (), app')"
  shows "client_at q app'" and "displayed L e app = []"
proof -
  have inv: "app_inv app'"
    using client_step_safe [OF _ steady_ok [OF assms(2)]] assms(1,4) by (simp add: client_at_def del: client_step.simps)
  show "client_at q app'"
  proof (cases e)
    case (SocketWrite ec n)
    with assms(4) have "AsyncTcpClient_onWrite L ec n (ca_client app, ca_log app) = (Ret (), (ca_client app', ca_log app'))"
      by (auto simp: on_client_def split: prod.splits)
    from write_keeps [OF this] assms(1) inv show ?thesis by (simp add: client_at_def)
  next
    case (InputRead x)
    then show ?thesis using input_keeps [of app x app'] assms inv by (simp add: client_at_def)
  qed (use assms in \<open>auto simp: client_at_def\<close>)
  show "displayed L e app = []" using assms(3) by (cases e rule: socket_bytes.cases) simp_all
qed

lemma client_consumer:
  "live_frame_consumer L (display_of L) (client_step L) steady_event socket_bytes socket_waits client_at
    (displayed L) (\<lambda>_. []) (\<lambda>t. t) display_end"
proof unfold_locales
  fix q s e d
  assume at: "client_at q s" and ev: "steady_event s e" and "socket_bytes e = Some d"
  then obtain ec n where e: "e = SocketRead (ec, n, d)" by (auto simp: socket_bytes_Some)
  from client_read_advance [OF at, of ec n d] ev e
  show "length d = need q \<and> (\<exists>s'. client_step L e s = (map_outcome (\<lambda>_. ()) (advance (display_of L) L q d), s') \<and>
      (case advance (display_of L) L q d of
         Ret (ts, q') \<Rightarrow> client_at q' s' \<and> displayed L e s @ [] = [] @ concat (map (\<lambda>t. t) ts)
       | _ \<Rightarrow> displayed L e s @ [] = [] @ display_end (fst (client_step L e s))))"
    by (cases "advance (display_of L) L q d") (auto simp del: client_step.simps displayed.simps)
next
  fix q s and d :: string
  assume at: "client_at q s" and len: "length d = need q"
  let ?e = "SocketRead (no_error, length d, d)"
  have "socket_bytes ?e = Some d" "steady_event s ?e" using reader_at_delivery [OF client_at_reader [OF at] len] by simp_all
  then show "\<exists>e. socket_bytes e = Some d \<and> (steady_event s e \<or>
      (\<exists>e0 s1. socket_bytes e0 = None \<and> steady_event s e0 \<and> client_step L e0 s = (Ret (), s1) \<and> steady_event s1 e))" by blast
qed (use client_other_step reader_at_starved [OF client_at_reader] in
    \<open>simp_all add: socket_waits_def display_end_def del: client_step.simps\<close>)

end

interpretation wire_client_stream: live_frame_consumer wire_lib "display_of wire_lib" "client_step wire_lib" steady_event
  socket_bytes socket_waits client_at "displayed wire_lib" "\<lambda>_. []" "\<lambda>t. t" display_end
  by (rule wire.client_consumer)

context protobuf
begin

lemma display_of_response:
  assumes "cm_type m = ChatMessage_ECHO_RESPONSE" and "chat_fits utf8 m"
  shows "display_of L (ECHO_prefix body) (chat_body L m) = Ret (receive_note @ echo_rsp_text m)"
  using chat_parse [OF fitting_body(1) [OF assms(2)], of "[]"] assms by (simp add: display_of_def chat_fits_def)

end

subsection \<open>Properties\<close>

text \<open>
  C8. The client on any byte stream from the server. Every stream can be delivered to a connected
  client, and however its reads are scheduled, between any lines the user types and the completions of
  the client's own writes, what the reads put on the display are the texts that the reference
  \<open>process (display_of L)\<close> gives for the stream, in order, and nothing else; and the client ends
  as the reference does: it goes on when the stream is used up, throws at a prefix or body that does not
  parse and at a message larger than the buffer, and aborts at a frame or a message of another type,
  the latter after a note on the display.
\<close>

theorem client_shows_any_stream:
  assumes "protobuf L utf8" and "app_inv app" and "client_ready (ca_client app)" and "lw_instance (ca_log app) = std_logger"
    and "process (display_of L) L None bytes = (texts, verdict)"
  shows "(\<exists>es unread. stream_run (client_step L) steady_event socket_bytes socket_waits es unread app \<and>
      delivered_bytes socket_bytes es @ unread = bytes) \<and>
    (\<forall>es unread. stream_run (client_step L) steady_event socket_bytes socket_waits es unread app \<and>
        delivered_bytes socket_bytes es @ unread = bytes \<longrightarrow>
      (\<exists>app'. client_run L es app = (verdict, app') \<and>
        emitted (client_step L) (displayed L) es app = concat texts @ display_end verdict))"
proof -
  have "client_at None app" using assms(2-4) by (simp add: client_at_def client_ready_def)
  from live_frame_consumer.equivalent [OF protobuf.client_consumer [OF assms(1)] this assms(5)] show ?thesis
    by (simp add: client_run_loop)
qed

text \<open>A response, then a request: the response is shown, the request is noted, and the client aborts.\<close>

theorem client_shows_any_stream_witness:
  "\<exists>es unread app'. stream_run (client_step wire_lib) steady_event socket_bytes socket_waits es unread sample_app \<and>
    delivered_bytes socket_bytes es @ unread = frame wire_lib (chat_body wire_lib welcome_message) @
      frame wire_lib (chat_body wire_lib sample_request) \<and>
    client_run wire_lib es sample_app =
      (AssertFail ''echoMessage->type() == proto::ChatMessage::ECHO_RESPONSE'', app') \<and>
    emitted (client_step wire_lib) (displayed wire_lib) es sample_app =
      receive_note @ echo_rsp_text welcome_message @ receive_note"
proof -
  let ?x = "AssertFail ''echoMessage->type() == proto::ChatMessage::ECHO_RESPONSE''"
  let ?r = "chat_body wire_lib sample_request" and ?w = "chat_body wire_lib welcome_message"
  have w: "cm_type welcome_message = ChatMessage_ECHO_RESPONSE" "chat_fits valid_utf8 welcome_message"
    using wire.utf8_ascii [of "cm_text welcome_message"]
    by (simp_all add: chat_fits_def welcome_message_def ChatMessage_default_def MAX_READ_BUFFER_SIZE_BYTES_def)
  have q: "chat_fits valid_utf8 sample_request" "cm_type sample_request \<noteq> ChatMessage_ECHO_RESPONSE"
    using sample_request_ok by (simp_all add: echo_request_def)
  have "display_of wire_lib (ECHO_prefix ?r) ?r = ?x"
    using wire.chat_parse [OF wire.fitting_body(1) [OF q(1)], of "[]"] q by (simp add: display_of_def chat_fits_def)
  with wire.process_frame [OF wire.fitting_body(2,3) [OF q(1)], of "display_of wire_lib" "[]"]
  have "process (display_of wire_lib) wire_lib None (frame wire_lib ?r) = ([], ?x)" by simp
  with wire.process_frame [OF wire.fitting_body(2,3) [OF w(2)], of "display_of wire_lib" "frame wire_lib ?r"]
    wire.display_of_response [OF w]
  have p: "process (display_of wire_lib) wire_lib None (frame wire_lib ?w @ frame wire_lib ?r) =
      ([receive_note @ echo_rsp_text welcome_message], ?x)" by simp
  have app: "client_ready (ca_client sample_app)" "lw_instance (ca_log sample_app) = std_logger"
    using connected_client_ready by (simp_all add: sample_app_def registerInstance_def)
  have "concat [receive_note @ echo_rsp_text welcome_message] @ display_end ?x =
      receive_note @ echo_rsp_text welcome_message @ receive_note" by (simp add: display_end_def)
  with client_shows_any_stream [OF wire.protobuf_axioms sample_app_inv app p] show ?thesis by metis
qed

end
