(* ===== verification/Channel.thy ===== *)
theory Channel
  imports AsyncReader EchoHandler
begin

text \<open>
  A byte channel that carries frames to a reader. TCP keeps the bytes and their order and forgets
  where one write ended and the next began; \<open>carries\<close> says which messages are still to come, given
  the bytes in the channel and the state the reader has reached within the first frame.
\<close>

definition carries :: "extlib \<Rightarrow> 'cb AsyncReader \<Rightarrow> Protocol \<Rightarrow> string \<Rightarrow> string list \<Rightarrow> bool" where
  "carries L rd P chan bodies \<longleftrightarrow>
     await_prefix P rd \<and> chan = concat (map (frame L) bodies) \<or>
     (\<exists>b bs. bodies = b # bs \<and> pendingReads rd = [(AsyncRead (length b), HandleReadProtoMessageFinished True)] \<and>
        fp_type (deserFramePrefixCache P) = FramePrefix_ECHO \<and> chan = b @ concat (map (frame L) bs))"

lemma carries_append: "carries L rd P chan bodies \<Longrightarrow> carries L rd P (chan @ frame L b) (bodies @ [b])"
  by (auto simp: carries_def)

lemma carries_serialized [simp]:
  "carries L rd (P\<lparr>serFramePrefixCache := p\<rparr>) chan bodies = carries L rd P chan bodies"
  by (simp add: carries_def await_prefix_def)

lemma carries_start: "await_prefix P rd \<Longrightarrow> carries L rd P [] []"
  by (simp add: carries_def)

context protobuf
begin

text \<open>A channel that is not empty has the bytes its reader asks for; an empty one has no messages left.\<close>

lemma carries_enabled:
  assumes "proto_mode cb rd P" and "Protocol_inv P" and "carries L rd P chan bodies" and "\<forall>b \<in> set bodies. framable b"
    and "chan \<noteq> []"
  obtains d where "d \<noteq> []" and "take (length d) chan = d" and "completion_ok (no_error, length d, d) rd"
  using assms(3) unfolding carries_def
proof (elim disjE conjE exE)
  assume await: "await_prefix P rd" and chan: "chan = concat (map (frame L) bodies)"
  then obtain b bs where "bodies = b # bs" using assms(5) by (cases bodies) auto
  then have "length (frame L b) = FRAME_PREFIX_SIZE + length b" "chan = frame L b @ concat (map (frame L) bs)"
    using framing.enc_split [OF framing_frame, of b] assms(4) chan by auto
  then have "length (take FRAME_PREFIX_SIZE chan) = FRAME_PREFIX_SIZE" by simp
  with await assms(1,2) show thesis
    by (intro that [of "take FRAME_PREFIX_SIZE chan"])
      (auto simp: completion_ok_def await_prefix_def proto_mode_def Protocol_inv_def FRAME_PREFIX_SIZE_def)
next
  fix b bs
  assume "bodies = b # bs" "pendingReads rd = [(AsyncRead (length b), HandleReadProtoMessageFinished True)]"
    "chan = b @ concat (map (frame L) bs)"
  with assms(1,4) show thesis by (intro that [of b]) (auto simp: completion_ok_def proto_mode_def framable_def)
qed

lemma carries_empty:
  assumes "carries L rd P [] bodies" and "\<forall>b \<in> set bodies. framable b"
  shows "bodies = []"
proof -
  have "frame L b \<noteq> []" if "framable b" for b using framing.enc_split [OF framing_frame that] that by (auto simp: framable_def)
  with assms show ?thesis by (cases bodies) (auto simp: carries_def framable_def)
qed

text \<open>The channel's next bytes, as many as the reader asked for, bring a prefix or the first message.\<close>

lemma carries_step:
  assumes "proto_mode cb rd P" and "Protocol_inv P" and "carries L rd P (d @ chan) bodies"
    and "\<forall>b \<in> set bodies. framable b \<and> length b \<le> maxBufferSize rd"
    and "completion_ok (no_error, length d, d) rd"
  obtains (prefix) rd' P' where "await_prefix P rd"
      "completeRead L (no_error, length d, d) (rd, P, lw) = (Ret NoCall, (rd', P', lw))"
      "carries L rd' P' chan bodies" "maxBufferSize rd' = maxBufferSize rd" "PREFIX_SIZE P' = PREFIX_SIZE P"
      "proto_inv cb rd' P'"
  | (message) bs rd' where "bodies = d # bs" "await_message (length d) rd"
      "completeRead L (no_error, length d, d) (rd, P, lw) = (Ret (Call cb d False), (rd', P, lw))"
      "carries L rd' P chan bs" "maxBufferSize rd' = maxBufferSize rd" "proto_inv cb rd' P"
      "fp_type (deserFramePrefixCache P) = FramePrefix_ECHO"
  using assms(3) unfolding carries_def
proof (elim disjE conjE exE)
  assume await: "await_prefix P rd" and chan: "d @ chan = concat (map (frame L) bodies)"
  have len: "length d = FRAME_PREFIX_SIZE"
    using await assms(1,2,5) by (simp add: completion_ok_def await_prefix_def proto_mode_def Protocol_inv_def)
  then obtain b bs where bodies: "bodies = b # bs" using chan by (cases bodies) (auto simp: FRAME_PREFIX_SIZE_def)
  then have b: "framable b" "length b \<le> maxBufferSize rd" using assms(4) by auto
  have pre: "frame L b = take FRAME_PREFIX_SIZE (frame L b) @ b" "length (take FRAME_PREFIX_SIZE (frame L b)) = FRAME_PREFIX_SIZE"
    by (rule framing.take_enc [OF framing_frame b(1)], rule framing.length_take_enc [OF framing_frame b(1)])
  have "d @ chan = take FRAME_PREFIX_SIZE (frame L b) @ b @ concat (map (frame L) bs)"
    using chan bodies pre(1) by (metis append.assoc concat.simps(2) list.simps(9))
  then have d: "d = take FRAME_PREFIX_SIZE (frame L b)" and rest: "chan = b @ concat (map (frame L) bs)"
    using len pre(2) by (simp_all add: append_eq_append_conv)
  have "completeRead L (no_error, length d, d) (rd, P, lw) = (Ret NoCall, (expecting b rd, noted b P, lw))"
    unfolding len using frame_prefix_step [OF assms(1) await assms(2) b, of no_error lw] by (simp add: d)
  moreover have "carries L (expecting b rd) (noted b P) chan bodies"
    using bodies rest by (simp add: carries_def expecting_def)
  moreover have "proto_inv cb (expecting b rd) (noted b P)"
    using assms(1) b(2) by (auto simp: proto_inv_def proto_mode_def expecting_def await_message_def)
  ultimately show thesis
    by (intro prefix [OF await, of "expecting b rd" "noted b P"]) (simp_all add: expecting_def)
next
  fix b bs
  assume bodies: "bodies = b # bs" and q: "pendingReads rd = [(AsyncRead (length b), HandleReadProtoMessageFinished True)]"
    and p: "fp_type (deserFramePrefixCache P) = FramePrefix_ECHO" and chan: "d @ chan = b @ concat (map (frame L) bs)"
  have "length d = length b" using q assms(1,5) by (simp add: completion_ok_def proto_mode_def)
  with chan have d: "d = b" and rest: "chan = concat (map (frame L) bs)" by (simp_all add: append_eq_append_conv)
  let ?rd = "rd\<lparr>pendingReads := [(AsyncRead (PREFIX_SIZE P), HandleReadProtoFramePrefixFinished True)]\<rparr>"
  have rd: "rd = expecting b ?rd" using q by (cases rd) (simp add: expecting_def)
  have m: "proto_mode cb ?rd P" "await_prefix P ?rd" using assms(1) by (simp_all add: proto_mode_def await_prefix_def)
  have "completeRead L (no_error, length b, b) (expecting b ?rd, P, lw) = (Ret (Call cb b False), (?rd, P, lw))"
    using assms(4) bodies by (intro frame_message_step [OF m]) simp_all
  then have "completeRead L (no_error, length d, d) (rd, P, lw) = (Ret (Call cb d False), (?rd, P, lw))"
    by (simp only: d flip: rd)
  moreover have "await_message (length d) rd" using q d bodies assms(4) by (simp add: await_message_def)
  ultimately show thesis using bodies d rest m p by (intro message [of bs ?rd]) (simp_all add: carries_def proto_inv_def)
qed

end

end
