(* ===== verification/Closed_System.thy ===== *)
theory Closed_System
  imports Channel Echo_Session Client Simulation
begin

text \<open>
  Both programs and the network between them as one system: a client, the server, and the two byte
  channels of the connection that the server knows by the reference \<open>r\<close>. A write enters its channel when
  it is started and completes at any later time, so the peer may have read its bytes before or after
  the completion handler runs; a read completes as soon as the channel has the bytes it asks for. The
  server may handle events of its other clients in between.
\<close>

subsection \<open>The system\<close>

record net =
  nt_app :: client_app
  nt_server :: server
  nt_up :: string
  nt_down :: string

datatype net_event =
    UserTypes nat string
  | ClientReads string
  | ClientWritten
  | ServerReads string
  | ServerWritten
  | OtherClient server_event

definition client_ops :: "client_app \<Rightarrow> write_op list" where
  "client_ops app = pendingWrites (cl_writer (ca_client app))"

definition server_ops :: "ref \<Rightarrow> server \<Rightarrow> write_op list" where
  "server_ops r s = (case map_of (sv_connections s) r of Some c \<Rightarrow> tc_pendingWrites c | None \<Rightarrow> [])"

definition server_awaits_message :: "ref \<Rightarrow> server \<Rightarrow> bool" where
  "server_awaits_message r s \<longleftrightarrow> (\<exists>c k. map_of (sv_connections s) r = Some c \<and> await_message k (tc_reader c))"

text \<open>The bytes of the writes that an event has started.\<close>

definition started :: "write_op list \<Rightarrow> write_op list \<Rightarrow> string" where
  "started ops ops' = concat (map wo_data (drop (length ops) ops'))"

fun not_for :: "ref \<Rightarrow> server_event \<Rightarrow> bool" where
  "not_for r (AcceptDone ec) = True"
| "not_for r (ReadDone r' e) = (r' \<noteq> r)"
| "not_for r (SendDone r' ec n) = (r' \<noteq> r)"

fun net_event_ok :: "ref \<Rightarrow> net \<Rightarrow> net_event \<Rightarrow> bool" where
  "net_event_ok r st (UserTypes n data) = client_event_ok (nt_app st) (InputRead (no_error, n, data))"
| "net_event_ok r st (ClientReads d) =
     (client_event_ok (nt_app st) (SocketRead (no_error, length d, d)) \<and> take (length d) (nt_down st) = d)"
| "net_event_ok r st ClientWritten = (client_ops (nt_app st) \<noteq> [])"
| "net_event_ok r st (ServerReads d) =
     (event_ok (nt_server st) (ReadDone r (no_error, length d, d)) \<and> take (length d) (nt_up st) = d)"
| "net_event_ok r st ServerWritten = (server_ops r (nt_server st) \<noteq> [])"
| "net_event_ok r st (OtherClient e) =
     (not_for r e \<and> event_ok (nt_server st) e \<and> Suc (sv_nextRef (nt_server st)) < 2 ^ 64)"

definition client_part :: "extlib \<Rightarrow> client_event \<Rightarrow> net \<Rightarrow> (net, unit) run" where
  "client_part L e st =
     (case client_step L e (nt_app st) of
        (res, app) \<Rightarrow> (res, st\<lparr>nt_app := app, nt_up := nt_up st @ started (client_ops (nt_app st)) (client_ops app)\<rparr>))"

definition server_part :: "extlib \<Rightarrow> ref \<Rightarrow> server_event \<Rightarrow> net \<Rightarrow> (net, unit) run" where
  "server_part L r e st =
     (case server_step L e (nt_server st) of
        (res, s) \<Rightarrow> (res, st\<lparr>nt_server := s,
                            nt_down := nt_down st @ started (server_ops r (nt_server st)) (server_ops r s)\<rparr>))"

fun net_step :: "extlib \<Rightarrow> ref \<Rightarrow> net_event \<Rightarrow> net \<Rightarrow> (net, unit) run" where
  "net_step L r (UserTypes n data) st = client_part L (InputRead (no_error, n, data)) st"
| "net_step L r (ClientReads d) st =
     client_part L (SocketRead (no_error, length d, d)) (st\<lparr>nt_down := drop (length d) (nt_down st)\<rparr>)"
| "net_step L r ClientWritten st =
     client_part L (SocketWrite no_error (length (wo_data (hd (client_ops (nt_app st)))))) st"
| "net_step L r (ServerReads d) st =
     server_part L r (ReadDone r (no_error, length d, d)) (st\<lparr>nt_up := drop (length d) (nt_up st)\<rparr>)"
| "net_step L r ServerWritten st =
     server_part L r (SendDone r no_error (length (wo_data (hd (server_ops r (nt_server st)))))) st"
| "net_step L r (OtherClient e) st = server_part L r e st"

subsection \<open>Observations\<close>

datatype net_obs = Sent ChatMessage | Displayed string | Silent

text \<open>The text of the command in a line, as the dispatcher computes it.\<close>

definition command_text :: "string \<Rightarrow> string" where
  "command_text line =
     trimWhitespace False True (remove_prefix (trimWhitespace True True line) (sv_size ECHO_CMD_PREFIX))"

definition typed_line :: "client_app \<Rightarrow> string \<Rightarrow> string" where
  "typed_line app data = takeWhile (\<lambda>x. x \<noteq> CHR 0x0A) (readBuffer (al_reader (ca_loop app)) @ data)"

text \<open>
  A command is sent when a write was started. What a completed read shows is the text by which the
  client's display, the standard output behind its logger, has grown.
\<close>

fun net_observed :: "net_event \<Rightarrow> net \<Rightarrow> net \<Rightarrow> net_obs" where
  "net_observed (UserTypes n data) st st' =
     (if length (client_ops (nt_app st)) < length (client_ops (nt_app st'))
      then Sent (echo_message (ca_echoCommandId (nt_app st)) (command_text (typed_line (nt_app st) data))) else Silent)"
| "net_observed (ClientReads d) st st' =
     Displayed (drop (length (display_text (nt_app st))) (display_text (nt_app st')))"
| "net_observed _ st st' = Silent"

text \<open>The text the client shows for a response.\<close>

definition shown_text :: "ChatMessage \<Rightarrow> string" where
  "shown_text m = ''DBG: handle Echo receive client\<newline>'' @ ''ECHO_RSP id:'' @ show_nat (unat (cm_id m)) @
     ''  text: \"\<newline>'' @ cm_text m @ ''\<newline>\"\<newline>''"

fun sent_of :: "net_obs \<Rightarrow> ChatMessage list" where
  "sent_of (Sent m) = [m]"
| "sent_of _ = []"

fun displayed_of :: "net_obs \<Rightarrow> string" where
  "displayed_of (Displayed t) = t"
| "displayed_of _ = []"

definition sent_in :: "('e \<times> net_obs) list \<Rightarrow> ChatMessage list" where
  "sent_in es = concat (map (\<lambda>eo. sent_of (snd eo)) es)"

definition displayed_in :: "('e \<times> net_obs) list \<Rightarrow> string" where
  "displayed_in es = concat (map (\<lambda>eo. displayed_of (snd eo)) es)"

lemma in_run_simps [simp]:
  "sent_in [] = []" "sent_in (eo # es) = sent_of (snd eo) @ sent_in es" "sent_in (es @ es') = sent_in es @ sent_in es'"
  "displayed_in [] = []" "displayed_in (eo # es) = displayed_of (snd eo) @ displayed_in es"
  "displayed_in (es @ es') = displayed_in es @ displayed_in es'"
  by (simp_all add: sent_in_def displayed_in_def)

text \<open>A transition: the event returns, and the outstanding answer of the connection is not overrun.\<close>

definition net_trans :: "extlib \<Rightarrow> ref \<Rightarrow> net \<Rightarrow> net_event \<times> net_obs \<Rightarrow> net \<Rightarrow> bool" where
  "net_trans L r st eo st' \<longleftrightarrow>
     (case eo of (e, ob) \<Rightarrow>
       net_event_ok r st e \<and> net_step L r e st = (Ret (), st') \<and>
       list_all wo_intact (server_ops r (nt_server st')) \<and> ob = net_observed e st st')"

text \<open>
  The user's part: what is sent is valid UTF-8 and leaves room for the framing in the server's buffer.
  A transition is \<open>fair\<close> when that holds of the command it sends, if it sends one.
\<close>

definition sendable :: "(string \<Rightarrow> bool) \<Rightarrow> ChatMessage \<Rightarrow> bool" where
  "sendable utf8 m \<longleftrightarrow> utf8 (cm_text m) \<and> length (cm_text m) + 23 \<le> MAX_READ_BUFFER_SIZE_BYTES"

definition fair_trans :: "extlib \<Rightarrow> (string \<Rightarrow> bool) \<Rightarrow> ref \<Rightarrow> net \<Rightarrow> net_event \<times> net_obs \<Rightarrow> net \<Rightarrow> bool" where
  "fair_trans L utf8 r st eo st' \<longleftrightarrow> net_trans L r st eo st' \<and> (\<forall>m \<in> set (sent_of (snd eo)). sendable utf8 m)"

lemma fair_run:
  "run_of (net_trans L r) st es st' \<Longrightarrow> \<forall>m \<in> set (sent_in es). sendable utf8 m \<Longrightarrow> run_of (fair_trans L utf8 r) st es st'"
  by (induction rule: run_of.induct) (auto intro: run_of.intros simp: fair_trans_def)

text \<open>A typed line whose command, if it is one, is sendable.\<close>

fun user_ok :: "(string \<Rightarrow> bool) \<Rightarrow> net \<Rightarrow> net_event \<Rightarrow> bool" where
  "user_ok utf8 st (UserTypes n data) =
     (let t = command_text (typed_line (nt_app st) data) in utf8 t \<and> length t + 23 \<le> MAX_READ_BUFFER_SIZE_BYTES)"
| "user_ok utf8 st _ = True"

subsection \<open>Invariant\<close>

text \<open>The requests on their way up and the responses on their way down.\<close>

definition client_end :: "extlib \<Rightarrow> client_app \<Rightarrow> string \<Rightarrow> ChatMessage list \<Rightarrow> bool" where
  "client_end L app chan ms \<longleftrightarrow> app_inv app \<and> cl_connecting (ca_client app) = None \<and>
     carries L (cl_reader (ca_client app)) (cl_protocol (ca_client app)) chan (map (chat_body L) ms)"

definition server_end :: "extlib \<Rightarrow> ref \<Rightarrow> server \<Rightarrow> string \<Rightarrow> ChatMessage list \<Rightarrow> bool" where
  "server_end L r s chan ms \<longleftrightarrow> server_inv s \<and> (\<exists>c. map_of (sv_connections s) r = Some c \<and> conn_running c \<and>
     carries L (tc_reader c) (tc_protocol c) chan (map (chat_body L) ms))"

definition net_inv :: "extlib \<Rightarrow> (string \<Rightarrow> bool) \<Rightarrow> ref \<Rightarrow> net \<Rightarrow> ChatMessage list \<Rightarrow> ChatMessage list \<Rightarrow> bool" where
  "net_inv L utf8 r st ups downs \<longleftrightarrow>
     client_end L (nt_app st) (nt_down st) downs \<and> server_end L r (nt_server st) (nt_up st) ups \<and>
     (\<forall>m \<in> set ups. echo_request utf8 m) \<and>
     (\<forall>m \<in> set downs. cm_type m = ChatMessage_ECHO_RESPONSE \<and> chat_fits utf8 m) \<and>
     list_all wo_intact (server_ops r (nt_server st))"

subsection \<open>The client's end\<close>

lemma map_eq_ConsE:
  assumes "map f xs = y # ys"
  obtains x xs' where "xs = x # xs'" and "y = f x" and "ys = map f xs'"
  using assms by (cases xs) auto

definition is_command :: "client_app \<Rightarrow> string \<Rightarrow> bool" where
  "is_command app data \<longleftrightarrow> startsWith (trimWhitespace True True (typed_line app data)) ECHO_CMD_PREFIX"

lemma dispatch_command:
  "is_command app data \<Longrightarrow>
    dispatchCommand L (typed_line app data) st = EchoCommandHandler_handleCommand L (command_text (typed_line app data)) st"
  by (simp add: is_command_def dispatchCommand_def command_text_def)

context protobuf
begin

lemma fitting_bodies:
  assumes "\<forall>m \<in> set ms. chat_fits utf8 m" and "mx = MAX_READ_BUFFER_SIZE_BYTES"
  shows "\<forall>b \<in> set (map (chat_body L) ms). framable b \<and> length b \<le> mx"
  using assms fitting_body(2,3) by auto

lemma client_end_reads:
  assumes "client_end L app (d @ chan) ms" and "\<forall>m \<in> set ms. cm_type m = ChatMessage_ECHO_RESPONSE \<and> chat_fits utf8 m"
    and "completion_ok (no_error, length d, d) (cl_reader (ca_client app))"
  obtains (prefix) app' where
      "client_step L (SocketRead (no_error, length d, d)) app = (Ret (), app')"
      "client_end L app' chan ms" "client_ops app' = client_ops app" "ca_log app' = ca_log app"
  | (message) app' m ms' where "ms = m # ms'"
      "client_step L (SocketRead (no_error, length d, d)) app = (Ret (), app')"
      "client_end L app' chan ms'" "client_ops app' = client_ops app"
      "ca_log app' = log_put (echo_rsp_text m) (log_line ''DBG: handle Echo receive client'' (ca_log app))"
proof -
  let ?c = "ca_client app" and ?e = "(no_error, length d, d)"
  let ?rd = "cl_reader ?c" and ?P = "cl_protocol ?c" and ?lw = "ca_log app"
  have c: "client_inv ?c" "cl_connecting ?c = None" "carries L ?rd ?P (d @ chan) (map (chat_body L) ms)" and inv: "app_inv app"
    using assms(1) by (simp_all add: client_end_def app_inv_def)
  have m: "proto_mode AsyncTcpClient_handleRead_cb ?rd ?P" "Protocol_inv ?P" "maxBufferSize ?rd = MAX_READ_BUFFER_SIZE_BYTES"
    using c(1,2) by (simp_all add: client_inv_def proto_inv_def)
  have fits: "\<forall>b \<in> set (map (chat_body L) ms). framable b \<and> length b \<le> maxBufferSize ?rd"
    using assms(2) m(3) by (intro fitting_bodies) auto
  show thesis
  proof (cases rule: carries_step [OF m(1,2) c(3) fits assms(3), where lw = ?lw])
    case (1 rd P)
    let ?app = "app\<lparr>ca_client := ?c\<lparr>cl_reader := rd, cl_protocol := P\<rparr>\<rparr>"
    have "client_end L ?app chan ms"
      using 1 inv m c by (simp add: client_end_def app_inv_def client_inv_def Protocol_inv_def)
    with 1 show thesis by (intro prefix [of ?app])
      (simp_all add: on_client_def AsyncTcpClient_onRead_def client_ops_def)
  next
    case (2 bs rd)
    from 2(1) obtain x ms' where x: "ms = x # ms'" "d = chat_body L x" "bs = map (chat_body L) ms'" by (rule map_eq_ConsE)
    then have fit: "cm_type x = ChatMessage_ECHO_RESPONSE" "chat_fits utf8 x" using assms(2) by simp_all
    let ?lw' = "log_put (echo_rsp_text x) (log_line ''DBG: handle Echo receive client'' ?lw)"
    let ?app = "app\<lparr>ca_client := ?c\<lparr>cl_reader := rd\<rparr>, ca_log := ?lw'\<rparr>"
    have "AsyncTcpClient_handleRead L (chat_body L x) (?c\<lparr>cl_reader := rd\<rparr>, ?lw) = (Ret (), (?c\<lparr>cl_reader := rd\<rparr>, ?lw'))"
      using fit 2(7) by (intro handleRead_response) (simp_all add: chat_fits_def MAX_READ_BUFFER_SIZE_BYTES_def)
    then have "client_step L (SocketRead ?e) app = (Ret (), ?app)"
      using 2(3) x(2) by (simp add: on_client_def AsyncTcpClient_onRead_def)
    moreover have "client_end L ?app chan ms'"
      using 2 x(3) inv m c by (simp add: client_end_def app_inv_def client_inv_def)
    ultimately show thesis using x(1) by (intro message [of x ms' ?app]) (simp_all add: client_ops_def)
  qed
qed

text \<open>
  A typed line. It is dispatched; a command that can be serialized is sent unless a write is
  outstanding, and one that returns has been serialized.
\<close>

lemma typed_line_dispatched:
  assumes "client_end L app chan ms" and "completion_ok (no_error, n, data) (al_reader (ca_loop app))"
  obtains rest where "client_step L (InputRead (no_error, n, data)) app =
      (case dispatchCommand L (typed_line app data) (ca_client app, ca_echoCommandId app, ca_log app) of
         (res, (c, i, lw)) \<Rightarrow>
           (res, app\<lparr>ca_loop := (ca_loop app)\<lparr>al_reader := (al_reader (ca_loop app))\<lparr>readBuffer := rest\<rparr>\<rparr>,
              ca_client := c, ca_echoCommandId := i, ca_log := lw\<rparr>))"
proof -
  have "app_inv app" using assms(1) by (simp add: client_end_def)
  from input_line [OF this assms(2) failed_no_error] obtain l rest where
    buf: "readBuffer (al_reader (ca_loop app)) @ data = l @ CHR 0x0A # rest" "CHR 0x0A \<notin> set l" and
    step: "AsyncCommandLoop_onInput L (no_error, n, data) app =
      (case dispatchCommand L l (ca_client app, ca_echoCommandId app, ca_log app) of
         (res, (c, i, lw)) \<Rightarrow>
           (res, app\<lparr>ca_loop := (ca_loop app)\<lparr>al_reader := (al_reader (ca_loop app))\<lparr>readBuffer := rest\<rparr>\<rparr>,
              ca_client := c, ca_echoCommandId := i, ca_log := lw\<rparr>))" by blast
  have "l = typed_line app data" using takeWhile_line [OF buf(2), of rest] by (simp add: typed_line_def buf(1))
  with step show thesis by (intro that [of rest]) simp
qed

lemma client_end_types:
  assumes "client_end L app chan ms" and "completion_ok (no_error, n, data) (al_reader (ca_loop app))"
    and "m = echo_message (ca_echoCommandId app) (command_text (typed_line app data))"
    and "is_command app data \<Longrightarrow> pb_SerializeToString L (MChatMessage m) = Some (chat_body L m)"
    and "is_command app data \<Longrightarrow> framable (chat_body L m)"
  obtains app' where "client_step L (InputRead (no_error, n, data)) app = (Ret (), app')" and "client_end L app' chan ms"
    and "lw_instance (ca_log app') = lw_instance (ca_log app)"
    and "client_ops app' = client_ops app \<or> client_ops app = [] \<and>
      client_ops app' = [\<lparr>wo_data = frame L (chat_body L m), wo_intact = True\<rparr>]"
proof -
  let ?c = "ca_client app" and ?i = "ca_echoCommandId app" and ?lw = "ca_log app"
  let ?t = "command_text (typed_line app data)"
  have c: "client_inv ?c" using assms(1) by (simp add: client_end_def app_inv_def)
  obtain rest where step: "client_step L (InputRead (no_error, n, data)) app =
      (case dispatchCommand L (typed_line app data) (?c, ?i, ?lw) of
         (res, (c, i, lw)) \<Rightarrow>
           (res, app\<lparr>ca_loop := (ca_loop app)\<lparr>al_reader := (al_reader (ca_loop app))\<lparr>readBuffer := rest\<rparr>\<rparr>,
              ca_client := c, ca_echoCommandId := i, ca_log := lw\<rparr>))" by (rule typed_line_dispatched [OF assms(1,2)])
  let ?app = "\<lambda>c i lw. app\<lparr>ca_loop := (ca_loop app)\<lparr>al_reader := (al_reader (ca_loop app))\<lparr>readBuffer := rest\<rparr>\<rparr>,
    ca_client := c, ca_echoCommandId := i, ca_log := lw\<rparr>"
  show thesis
  proof (cases "is_command app data")
    case True
    obtain c' lw' where c': "EchoCommandHandler_handleCommand L ?t (?c, ?i, ?lw) = (Ret (), (c', ?i + 1, lw'))"
      "client_inv c'" "cl_reader c' = cl_reader ?c" "cl_connecting c' = cl_connecting ?c"
      "cl_protocol c' = (cl_protocol ?c)\<lparr>serFramePrefixCache := ECHO_prefix (chat_body L m)\<rparr>"
      "pendingWrites (cl_writer c') = (if pendingWrites (cl_writer ?c) = []
        then [\<lparr>wo_data = frame L (chat_body L m), wo_intact = True\<rparr>] else pendingWrites (cl_writer ?c))"
      "lw_instance lw' = lw_instance ?lw"
      by (rule echo_command_sent [OF c assms(3) assms(4) [OF True] assms(5) [OF True], of ?lw]) blast
    then have "client_step L (InputRead (no_error, n, data)) app = (Ret (), ?app c' (?i + 1) lw')"
      using step dispatch_command [OF True] by (simp del: client_step.simps)
    moreover have "client_end L (?app c' (?i + 1) lw') chan ms" using assms(1) c' by (simp add: client_end_def app_inv_def)
    ultimately show thesis by (rule that) (simp_all add: client_ops_def c'(6,7))
  next
    case False
    let ?lw' = "Logger_logError_message (lw_instance ?lw) ''ERR: Unsupported command.'' True True ?lw"
    have "client_step L (InputRead (no_error, n, data)) app = (Ret (), ?app ?c ?i ?lw')"
      using step False by (simp add: dispatchCommand_def is_command_def del: client_step.simps)
    moreover have "client_end L (?app ?c ?i ?lw') chan ms" using assms(1) by (simp add: client_end_def app_inv_def)
    ultimately show thesis by (rule that) (simp_all add: client_ops_def Logger_logError_message_def printLog_def Let_def)
  qed
qed

lemma typed_command_serialized:
  assumes "client_end L app chan ms" and "completion_ok (no_error, n, data) (al_reader (ca_loop app))"
    and "client_step L (InputRead (no_error, n, data)) app = (Ret (), app')" and "is_command app data"
    and "m = echo_message (ca_echoCommandId app) (command_text (typed_line app data))"
  shows "pb_SerializeToString L (MChatMessage m) = Some (chat_body L m)" and "framable (chat_body L m)"
proof -
  have c: "client_inv (ca_client app)" using assms(1) by (simp add: client_end_def app_inv_def)
  let ?st = "(ca_client app, ca_echoCommandId app, ca_log app)"
  have "fst (client_step L (InputRead (no_error, n, data)) app) = fst (dispatchCommand L (typed_line app data) ?st)"
    by (rule typed_line_dispatched [OF assms(1,2)]) (simp del: client_step.simps split: prod.splits)
  with assms(3) dispatch_command [OF assms(4)] obtain st where
    "EchoCommandHandler_handleCommand L (command_text (typed_line app data)) ?st = (Ret (), st)" by (metis fst_conv prod.collapse)
  from echo_command_returned [OF c this] show "pb_SerializeToString L (MChatMessage m) = Some (chat_body L m)"
    "framable (chat_body L m)" by (simp_all add: assms(5))
qed

lemma client_end_written:
  assumes "client_end L app chan ms" and "client_ops app = op # ops"
  obtains app' where "client_step L (SocketWrite no_error (length (wo_data op))) app = (Ret (), app')"
    and "client_end L app' chan ms" and "client_ops app' = []" and "ca_log app' = ca_log app"
proof -
  let ?c = "ca_client app"
  let ?w = "(cl_writer ?c)\<lparr>pendingWrites := [], writeInProgress := False\<rparr>"
  have c: "client_inv ?c" and w: "writer_inv (cl_writer ?c)" and op: "pendingWrites (cl_writer ?c) = op # ops"
    using assms by (simp_all add: client_end_def app_inv_def client_inv_def client_ops_def)
  have "completeWrite L no_error (length (wo_data op)) (cl_writer ?c, ca_log app) =
      (concat (map wo_data (pendingWrites (cl_writer ?c))), (Ret (), (?w, ca_log app)))"
    by (rule completeWrite_success [OF w op _ _ eof_failed]) (simp_all add: asio_write_contract_def)
  then have "client_step L (SocketWrite no_error (length (wo_data op))) app = (Ret (), app\<lparr>ca_client := ?c\<lparr>cl_writer := ?w\<rparr>\<rparr>)"
    by (simp add: on_client_def AsyncTcpClient_onWrite_def)
  moreover have "client_inv (?c\<lparr>cl_writer := ?w\<rparr>)" using c by (intro client_inv_writer) (simp_all add: writer_inv_def)
  ultimately show thesis using assms(1)
    by (intro that [of "app\<lparr>ca_client := ?c\<lparr>cl_writer := ?w\<rparr>\<rparr>"]) (simp_all add: client_end_def app_inv_def client_ops_def)
qed

subsection \<open>The server's end\<close>

text \<open>An event that replaces the connection keeps the rest of the server.\<close>

lemma server_end_update:
  assumes "server_inv s" and "map_of (sv_connections s) r = Some c" and "conn_running c" and "conn_running c'"
    and "tc_id c' = tc_id c" and "tc_handler c' = tc_handler c"
    and "carries L (tc_reader c') (tc_protocol c') chan (map (chat_body L) ms)"
    and "s' = s\<lparr>sv_connections := AList.update r c' (sv_connections s), sv_log := lw'\<rparr>"
  shows "server_end L r s' chan ms" and "server_ops r s' = tc_pendingWrites c'"
proof -
  have "map_of (sv_connections s') r = Some c'" by (simp add: assms(8) update_conv)
  with server_inv_update [OF assms(1-6), of lw'] assms(4,7,8)
  show "server_end L r s' chan ms" "server_ops r s' = tc_pendingWrites c'"
    by (simp_all add: server_end_def server_ops_def)
qed

lemma handleRead_request:
  assumes "conn_running c" and "echo_request utf8 m" and "fp_type (deserFramePrefixCache (tc_protocol c)) = FramePrefix_ECHO"
  obtains c' lw' where "TcpConnection_handleRead L (chat_body L m) (c, lw) = (Ret (), (c', lw'))"
    and "conn_running c'" and "tc_id c' = tc_id c" and "tc_handler c' = tc_handler c" and "tc_reader c' = tc_reader c"
    and "tc_protocol c' = (tc_protocol c)\<lparr>serFramePrefixCache := ECHO_prefix (chat_body L (echo_response m))\<rparr>"
    and "tc_pendingWrites c' = (if tc_pendingWrites c = []
      then [\<lparr>wo_data = frame L (chat_body L (echo_response m)), wo_intact = True\<rparr>] else clobber (tc_pendingWrites c))"
proof -
  let ?P = "(tc_protocol c)\<lparr>serFramePrefixCache := ECHO_prefix (chat_body L (echo_response m))\<rparr>"
  let ?c = "c\<lparr>tc_protocol := ?P\<rparr>" and ?lw = "log_line ''DBG: handle Echo receive server'' lw"
  let ?F = "frame L (chat_body L (echo_response m))"
  have m: "cm_type m = ChatMessage_ECHO_REQUEST" "length (cm_text m) + length (cm_unknown m) + 23 < 2 ^ 31" "chat_fits utf8 m"
    using echo_request_answer [OF assms(2)] by simp_all
  have inv: "Protocol_inv (tc_protocol c)" "send_inv ?c" "conn_running ?c"
    using assms(1) conn_running_protocol [OF assms(1), of ?P] by (simp_all add: conn_running_def conn_inv_def send_inv_def)
  have "deserialize L (chat_body L m) (int (length (chat_body L m))) (tc_protocol c) = (Ret (MChatMessage m), tc_protocol c)"
    using m(3) by (intro deserialize_body [OF assms(3) fitting_body(1)]) (simp_all add: chat_fits_def)
  then have h: "TcpConnection_handleRead L (chat_body L m) (c, lw) = (Ret (), TcpConnection_send ?F (?c, ?lw))"
    using handleServer_request [where proto_of = tc_protocol and c = c, OF m(1,2) inv(1),
        of TcpConnection_set_protocol TcpConnection_send lw]
    by (simp add: TcpConnection_handleRead_def TcpConnection_set_protocol_def)
  obtain c' lw' where c': "TcpConnection_send ?F (?c, ?lw) = (c', lw')" by fastforce
  show thesis using h c' send_pending [OF inv(2), of ?F ?lw] conn_running_send [OF inv(3), of ?F ?lw]
      TcpConnection_send_fields [of ?F ?c ?lw] by (intro that [of c' lw']) simp_all
qed

lemma conn_carries_reads:
  assumes "conn_running c" and "carries L (tc_reader c) (tc_protocol c) (d @ chan) (map (chat_body L) ms)"
    and "\<forall>m \<in> set ms. echo_request utf8 m" and "completion_ok (no_error, length d, d) (tc_reader c)"
  obtains c' lw' ms' where "TcpConnection_onRead L (no_error, length d, d) (c, lw) = (Ret (), (c', lw'))"
    and "conn_running c'" and "tc_id c' = tc_id c" and "tc_handler c' = tc_handler c"
    and "carries L (tc_reader c') (tc_protocol c') chan (map (chat_body L) ms')"
    and "ms' = ms \<and> \<not> (\<exists>k. await_message k (tc_reader c)) \<and> tc_pendingWrites c' = tc_pendingWrites c \<or> (\<exists>m. ms = m # ms' \<and>
      tc_pendingWrites c' = (if tc_pendingWrites c = []
        then [\<lparr>wo_data = frame L (chat_body L (echo_response m)), wo_intact = True\<rparr>] else clobber (tc_pendingWrites c)))"
proof -
  let ?rd = "tc_reader c" and ?P = "tc_protocol c"
  have m: "proto_mode TcpConnection_handleRead_cb ?rd ?P" "Protocol_inv ?P" "maxBufferSize ?rd = MAX_READ_BUFFER_SIZE_BYTES"
    using assms(1) by (simp_all add: conn_running_def conn_inv_def proto_inv_def)
  have fits: "\<forall>b \<in> set (map (chat_body L) ms). framable b \<and> length b \<le> maxBufferSize ?rd"
    using assms(3) m(3) by (intro fitting_bodies) (auto simp: echo_request_def)
  show thesis
  proof (cases rule: carries_step [OF m(1,2) assms(2) fits assms(4), where lw = lw])
    case (1 rd P)
    have "conn_running (c\<lparr>tc_reader := rd, tc_protocol := P\<rparr>)" by (rule conn_running_reader [OF assms(1) 1(6,5,4)])
    with 1 show thesis
      by (intro that [of "c\<lparr>tc_reader := rd, tc_protocol := P\<rparr>" lw ms])
        (simp_all add: TcpConnection_onRead_def await_prefix_def await_message_def)
  next
    case (2 bs rd)
    from 2(1) obtain x ms' where x: "ms = x # ms'" "d = chat_body L x" "bs = map (chat_body L) ms'" by (rule map_eq_ConsE)
    let ?c = "c\<lparr>tc_reader := rd\<rparr>"
    have "conn_running ?c" using conn_running_reader [OF assms(1) 2(6) refl 2(5)] by simp
    moreover have "echo_request utf8 x" "fp_type (deserFramePrefixCache (tc_protocol ?c)) = FramePrefix_ECHO"
      using assms(3) x(1) 2(7) by simp_all
    ultimately obtain c' lw' where c': "TcpConnection_handleRead L (chat_body L x) (?c, lw) = (Ret (), (c', lw'))"
      "conn_running c'" "tc_id c' = tc_id ?c" "tc_handler c' = tc_handler ?c" "tc_reader c' = tc_reader ?c"
      "tc_protocol c' = (tc_protocol ?c)\<lparr>serFramePrefixCache := ECHO_prefix (chat_body L (echo_response x))\<rparr>"
      "tc_pendingWrites c' = (if tc_pendingWrites ?c = []
        then [\<lparr>wo_data = frame L (chat_body L (echo_response x)), wo_intact = True\<rparr>] else clobber (tc_pendingWrites ?c))"
      by (rule handleRead_request)
    then show thesis using 2(3,4) x by (intro that [of c' lw' ms']) (simp_all add: TcpConnection_onRead_def)
  qed
qed

lemma server_end_reads:
  assumes "server_end L r s (d @ chan) ms" and "\<forall>m \<in> set ms. echo_request utf8 m"
    and "event_ok s (ReadDone r (no_error, length d, d))"
  obtains s' ms' where "server_step L (ReadDone r (no_error, length d, d)) s = (Ret (), s')" and "server_end L r s' chan ms'"
    and "ms' = ms \<and> \<not> server_awaits_message r s \<and> server_ops r s' = server_ops r s \<or> (\<exists>m. ms = m # ms' \<and>
      server_ops r s' = (if server_ops r s = []
        then [\<lparr>wo_data = frame L (chat_body L (echo_response m)), wo_intact = True\<rparr>] else clobber (server_ops r s)))"
proof -
  obtain c where inv: "server_inv s" and c: "map_of (sv_connections s) r = Some c" "conn_running c"
    "carries L (tc_reader c) (tc_protocol c) (d @ chan) (map (chat_body L) ms)" using assms(1) by (auto simp: server_end_def)
  have ok: "completion_ok (no_error, length d, d) (tc_reader c)" using assms(3) c(1) by simp
  obtain c' lw' ms' where c': "TcpConnection_onRead L (no_error, length d, d) (c, sv_log s) = (Ret (), (c', lw'))"
    "conn_running c'" "tc_id c' = tc_id c" "tc_handler c' = tc_handler c"
    "carries L (tc_reader c') (tc_protocol c') chan (map (chat_body L) ms')"
    and alt: "ms' = ms \<and> \<not> (\<exists>k. await_message k (tc_reader c)) \<and> tc_pendingWrites c' = tc_pendingWrites c \<or> (\<exists>m. ms = m # ms' \<and>
      tc_pendingWrites c' = (if tc_pendingWrites c = []
        then [\<lparr>wo_data = frame L (chat_body L (echo_response m)), wo_intact = True\<rparr>] else clobber (tc_pendingWrites c)))"
    by (rule conn_carries_reads [OF c(2,3) assms(2) ok])
  note upd = server_end_update [OF inv c(1,2) c'(2-5) refl, of lw']
  have "server_ops r s = tc_pendingWrites c" "server_awaits_message r s \<longleftrightarrow> (\<exists>k. await_message k (tc_reader c))"
    by (simp_all add: server_ops_def server_awaits_message_def c(1))
  with alt show thesis
    using on_conn_Some [OF c(1), of "TcpConnection_onRead L (no_error, length d, d)", OF c'(1)]
    by (intro that [OF _ upd(1)]) (simp_all only: upd(2) server_step.simps)
qed

lemma server_end_written:
  assumes "server_end L r s chan ms" and "server_ops r s = op # ops" and "wo_intact op"
  obtains s' where "server_step L (SendDone r no_error (length (wo_data op))) s = (Ret (), s')"
    and "server_end L r s' chan ms" and "server_ops r s' = []"
proof -
  obtain c where inv: "server_inv s" and c: "map_of (sv_connections s) r = Some c" "conn_running c"
    "carries L (tc_reader c) (tc_protocol c) chan (map (chat_body L) ms)" using assms(1) by (auto simp: server_end_def)
  then have op: "tc_pendingWrites c = op # ops" using assms(2) by (simp add: server_ops_def)
  note w = conn_running_written [OF c(2) op]
  let ?c = "c\<lparr>tc_pendingWrites := [], tc_writeInProgress := False\<rparr>"
  have "tc_handler c = EchoClientHandler" using server_invD [OF inv c(1)] by blast
  from onWrite_eq [OF c(1) this _ assms(3), of no_error "length (wo_data op)"] op w(1) obtain lw' where
    st: "TcpConnection_onWrite no_error (length (wo_data op)) r s =
      (Ret (), s\<lparr>sv_connections := AList.update r ?c (sv_connections s), sv_log := lw'\<rparr>)" by auto
  have "carries L (tc_reader ?c) (tc_protocol ?c) chan (map (chat_body L) ms)" using c(3) by simp
  note upd = server_end_update [OF inv c(1,2) w(2) _ _ this refl, of lw', simplified]
  show thesis by (rule that [OF _ upd]) (simp add: st)
qed

lemma server_end_other:
  assumes "server_end L r s chan ms" and "not_for r e" and "event_ok s e" and "Suc (sv_nextRef s) < 2 ^ 64"
    and "server_step L e s = (Ret (), s')"
  shows "server_end L r s' chan ms" and "server_ops r s' = server_ops r s"
proof -
  obtain c where inv: "server_inv s" and c: "map_of (sv_connections s) r = Some c" "conn_running c"
    "carries L (tc_reader c) (tc_protocol c) chan (map (chat_body L) ms)" using assms(1) by (auto simp: server_end_def)
  have "sv_nextRef s' < 2 ^ 64" using nextRef_step [OF assms(5)] assms(4) by (auto split: server_event.splits if_splits)
  note inv' = server_step_inv [OF inv assms(3,5) this]
  have "map_of (sv_connections s') r = map_of (sv_connections s) r"
  proof (cases e)
    case (AcceptDone ec)
    obtain r0 c0 where r0: "sv_accepting s = [r0]" "map_of (sv_connections s) r0 = Some c0" "conn_fresh c0"
      using inv by (auto simp: server_inv_def)
    have "r \<noteq> r0" using c(1,2) r0 conn_fresh_not_running by auto
    moreover have "r \<noteq> sv_nextRef s" using inv c(1) map_of_refs [of s r] by (auto simp: server_inv_def manager_inv_def)
    ultimately show ?thesis using server_accept_step [OF inv assms(4) r0(1), of ec] AcceptDone assms(5) by auto
  next
    case (ReadDone r1 x)
    then show ?thesis using isolated_step [OF inv, of e r1 x _ _ r L, unfolded assms(5)] assms(2) by simp
  next
    case (SendDone r1 ec n)
    then show ?thesis using isolated_step [OF inv, of e r1 _ ec n r L, unfolded assms(5)] assms(2) by simp
  qed
  with inv' c show "server_end L r s' chan ms" "server_ops r s' = server_ops r s"
    by (simp_all add: server_end_def server_ops_def)
qed

end

lemma client_end_append:
  "client_end L app chan ms \<Longrightarrow> client_end L app (chan @ frame L (chat_body L m)) (ms @ [m])"
  by (simp add: client_end_def carries_append)

lemma server_end_append:
  "server_end L r s chan ms \<Longrightarrow> server_end L r s (chan @ frame L (chat_body L m)) (ms @ [m])"
  by (auto simp: server_end_def carries_append)

lemma started_simps [simp]:
  "started ops ops = []" "started ops [] = []" "started [] [op] = wo_data op" "started ops (clobber ops) = []"
  by (simp_all add: started_def clobber_def)

subsection \<open>One event\<close>

text \<open>
  What an event may do to the messages in flight: none is lost, invented or overtaken, and those that
  have arrived are what has been displayed, if the client's logger is the one its \<open>main\<close> registers.
\<close>

definition on_std_logger :: "net \<Rightarrow> bool" where
  "on_std_logger st \<longleftrightarrow> lw_instance (ca_log (nt_app st)) = std_logger"

definition conserves ::
    "extlib \<Rightarrow> (string \<Rightarrow> bool) \<Rightarrow> ref \<Rightarrow> net \<Rightarrow> net_obs \<Rightarrow> ChatMessage list \<Rightarrow> ChatMessage list \<Rightarrow> net \<Rightarrow> bool" where
  "conserves L utf8 r st ob ups downs st' \<longleftrightarrow> (\<exists>shown ups' downs'. net_inv L utf8 r st' ups' downs' \<and>
     shown @ downs' @ map echo_response ups' = downs @ map echo_response (ups @ sent_of ob) \<and>
     (on_std_logger st \<longrightarrow> on_std_logger st' \<and> displayed_of ob = concat (map shown_text shown)))"

lemma conserves_silent:
  "net_inv L utf8 r st' ups' downs' \<Longrightarrow> downs' @ map echo_response ups' = downs @ map echo_response (ups @ sent_of ob) \<Longrightarrow>
    lw_instance (ca_log (nt_app st')) = lw_instance (ca_log (nt_app st)) \<Longrightarrow> displayed_of ob = [] \<Longrightarrow>
    conserves L utf8 r st ob ups downs st'"
  unfolding conserves_def on_std_logger_def by (intro exI [of _ "[]"] exI [of _ ups'] exI [of _ downs']) simp

text \<open>A whole run, from a state with messages in flight.\<close>

definition conserved_in ::
    "extlib \<Rightarrow> (string \<Rightarrow> bool) \<Rightarrow> ref \<Rightarrow> net \<Rightarrow> (net_event \<times> net_obs) list \<Rightarrow> ChatMessage list \<Rightarrow> ChatMessage list \<Rightarrow> net \<Rightarrow> bool" where
  "conserved_in L utf8 r st es ups downs st' \<longleftrightarrow> (\<exists>shown ups' downs'. net_inv L utf8 r st' ups' downs' \<and>
     shown @ downs' @ map echo_response ups' = downs @ map echo_response (ups @ sent_in es) \<and>
     (on_std_logger st \<longrightarrow> on_std_logger st' \<and> displayed_in es = concat (map shown_text shown)))"

context protobuf
begin

lemma user_types_progress:
  assumes inv: "net_inv L utf8 r st ups downs" and ok: "net_event_ok r st (UserTypes n data)"
    and user: "user_ok utf8 st (UserTypes n data)"
  shows "\<exists>st'. net_step L r (UserTypes n data) st = (Ret (), st')"
proof -
  have t: "length (command_text (typed_line (nt_app st) data)) + 23 < 2 ^ 31"
    using user by (simp add: Let_def MAX_READ_BUFFER_SIZE_BYTES_def)
  have "client_end L (nt_app st) (nt_down st) downs"
    "completion_ok (no_error, n, data) (al_reader (ca_loop (nt_app st)))" using inv ok by (simp_all add: net_inv_def)
  then obtain app' where "client_step L (InputRead (no_error, n, data)) (nt_app st) = (Ret (), app')"
    by (rule client_end_types [OF _ _ refl echo_body [OF t]])
  then show ?thesis by (simp add: client_part_def)
qed

lemma typed_cases:
  assumes inv: "net_inv L utf8 r st ups downs" and step: "net_trans L r st (UserTypes n data, ob) st'"
  obtains (quiet) app' where "ob = Silent" "st' = st\<lparr>nt_app := app'\<rparr>" "client_end L app' (nt_down st) downs"
      "lw_instance (ca_log app') = lw_instance (ca_log (nt_app st))"
  | (sent) app' m where "ob = Sent m" "st' = st\<lparr>nt_app := app', nt_up := nt_up st @ frame L (chat_body L m)\<rparr>"
      "client_end L app' (nt_down st) downs" "lw_instance (ca_log app') = lw_instance (ca_log (nt_app st))"
      "cm_type m = ChatMessage_ECHO_REQUEST" "cm_unknown m = []"
proof -
  let ?m = "echo_message (ca_echoCommandId (nt_app st)) (command_text (typed_line (nt_app st) data))"
  let ?ops = "client_ops (nt_app st)"
  have t: "net_event_ok r st (UserTypes n data)" "net_step L r (UserTypes n data) st = (Ret (), st')"
    "ob = net_observed (UserTypes n data) st st'" using step by (simp_all add: net_trans_def)
  have ce: "client_end L (nt_app st) (nt_down st) downs"
    "completion_ok (no_error, n, data) (al_reader (ca_loop (nt_app st)))" using inv t(1) by (simp_all add: net_inv_def)
  obtain app1 where app1: "client_step L (InputRead (no_error, n, data)) (nt_app st) = (Ret (), app1)"
    using t(2) by (auto simp: client_part_def split: prod.splits)
  obtain app' where app': "client_step L (InputRead (no_error, n, data)) (nt_app st) = (Ret (), app')"
    "client_end L app' (nt_down st) downs" "lw_instance (ca_log app') = lw_instance (ca_log (nt_app st))"
    "client_ops app' = ?ops \<or> ?ops = [] \<and> client_ops app' = [\<lparr>wo_data = frame L (chat_body L ?m), wo_intact = True\<rparr>]"
    by (rule client_end_types [OF ce refl typed_command_serialized [OF ce app1 _ refl]])
  have st': "st' = st\<lparr>nt_app := app', nt_up := nt_up st @ started ?ops (client_ops app')\<rparr>"
    using t(2) app'(1) by (simp add: client_part_def del: client_step.simps)
  from app'(4) show thesis
  proof (elim disjE conjE)
    assume "client_ops app' = ?ops"
    with app'(2,3) show thesis by (intro quiet [of app']) (simp_all add: t(3) st')
  next
    assume "?ops = []" "client_ops app' = [\<lparr>wo_data = frame L (chat_body L ?m), wo_intact = True\<rparr>]"
    with app'(2,3) show thesis
      by (intro sent [of ?m app']) (simp_all add: t(3) st' echo_message_def ChatMessage_default_def)
  qed
qed

lemma net_user_types:
  assumes inv: "net_inv L utf8 r st ups downs" and step: "fair_trans L utf8 r st (UserTypes n data, ob) st'"
  shows "conserves L utf8 r st ob ups downs st'"
proof -
  have t: "net_trans L r st (UserTypes n data, ob) st'" "\<forall>m \<in> set (sent_of ob). sendable utf8 m"
    using step by (simp_all add: fair_trans_def)
  show ?thesis
  proof (cases rule: typed_cases [OF inv t(1)])
    case (1 app')
    with inv show ?thesis by (intro conserves_silent [of _ _ _ _ ups downs]) (simp_all add: net_inv_def)
  next
    case (2 app' m)
    with t(2) have "echo_request utf8 m" by (simp add: sendable_def echo_request_def chat_fits_def)
    with 2 inv show ?thesis
      by (intro conserves_silent [of _ _ _ _ "ups @ [m]" downs]) (auto simp: net_inv_def server_end_append)
  qed
qed

lemma shown_on_display:
  "lw_instance lw = std_logger \<Longrightarrow>
    stream_text (log_put (echo_rsp_text m) (log_line ''DBG: handle Echo receive client'' lw)) Cout =
      stream_text lw Cout @ shown_text m"
  by (simp add: log_text_simps std_logger_def echo_rsp_text_def shown_text_def)

lemma net_client_reads:
  assumes inv: "net_inv L utf8 r st ups downs" and ok: "net_event_ok r st (ClientReads d)"
  shows "\<exists>st'. net_step L r (ClientReads d) st = (Ret (), st') \<and>
    conserves L utf8 r st (net_observed (ClientReads d) st st') ups downs st' \<and> nt_up st' = nt_up st"
proof -
  let ?chan = "drop (length d) (nt_down st)"
  have "d @ ?chan = nt_down st" using ok by (metis append_take_drop_id net_event_ok.simps(2))
  then have e: "client_end L (nt_app st) (d @ ?chan) downs" using inv by (simp add: net_inv_def)
  have fits: "\<forall>m \<in> set downs. cm_type m = ChatMessage_ECHO_RESPONSE \<and> chat_fits utf8 m"
    and c: "completion_ok (no_error, length d, d) (cl_reader (ca_client (nt_app st)))"
    using inv ok by (simp_all add: net_inv_def)
  show ?thesis
  proof (cases rule: client_end_reads [OF e fits c])
    case (1 app')
    let ?st = "st\<lparr>nt_app := app', nt_down := ?chan\<rparr>"
    have "conserves L utf8 r st (net_observed (ClientReads d) st ?st) ups downs ?st" using 1 inv
      by (intro conserves_silent [of _ _ _ _ ups downs]) (simp_all add: net_inv_def display_text_def)
    with 1 show ?thesis by (intro exI [of _ ?st]) (simp add: client_part_def del: client_step.simps)
  next
    case (2 app' m ms')
    let ?st = "st\<lparr>nt_app := app', nt_down := ?chan\<rparr>"
    have "net_inv L utf8 r ?st ups ms'" using 2 inv by (simp add: net_inv_def)
    moreover have "on_std_logger st \<Longrightarrow> on_std_logger ?st \<and> displayed_of (net_observed (ClientReads d) st ?st) = shown_text m"
      using 2(5) by (simp add: on_std_logger_def display_text_def shown_on_display)
    ultimately have "conserves L utf8 r st (net_observed (ClientReads d) st ?st) ups downs ?st" using 2(1)
      unfolding conserves_def by (intro exI [of _ "[m]"] exI [of _ ups] exI [of _ ms']) simp
    with 2 show ?thesis by (intro exI [of _ ?st]) (simp add: client_part_def del: client_step.simps)
  qed
qed

lemma net_client_written:
  assumes inv: "net_inv L utf8 r st ups downs" and ok: "net_event_ok r st ClientWritten"
  shows "\<exists>st'. net_step L r ClientWritten st = (Ret (), st') \<and>
    conserves L utf8 r st (net_observed ClientWritten st st') ups downs st'"
proof -
  have "client_end L (nt_app st) (nt_down st) downs" using inv by (simp add: net_inv_def)
  moreover obtain op ops where op: "client_ops (nt_app st) = op # ops" using ok by (auto simp: neq_Nil_conv)
  ultimately obtain app' where app': "client_step L (SocketWrite no_error (length (wo_data op))) (nt_app st) = (Ret (), app')"
    "client_end L app' (nt_down st) downs" "client_ops app' = []" "ca_log app' = ca_log (nt_app st)" by (rule client_end_written)
  then show ?thesis using inv op
    by (intro exI [of _ "st\<lparr>nt_app := app'\<rparr>"] conjI conserves_silent [of _ _ _ _ ups downs])
      (simp_all add: client_part_def net_inv_def del: client_step.simps)
qed

lemma net_server_reads:
  assumes inv: "net_inv L utf8 r st ups downs" and ok: "net_event_ok r st (ServerReads d)"
  shows "\<exists>st'. net_step L r (ServerReads d) st = (Ret (), st') \<and>
    (list_all wo_intact (server_ops r (nt_server st')) \<longrightarrow>
       conserves L utf8 r st (net_observed (ServerReads d) st st') ups downs st') \<and>
    (server_ops r (nt_server st) = [] \<longrightarrow> list_all wo_intact (server_ops r (nt_server st'))) \<and>
    (server_awaits_message r (nt_server st) \<and> server_ops r (nt_server st) \<noteq> [] \<longrightarrow>
       server_ops r (nt_server st') = clobber (server_ops r (nt_server st)))"
proof -
  let ?chan = "drop (length d) (nt_up st)" and ?ops = "server_ops r (nt_server st)"
  have "d @ ?chan = nt_up st" using ok by (metis append_take_drop_id net_event_ok.simps(4))
  then have e: "server_end L r (nt_server st) (d @ ?chan) ups" using inv by (simp add: net_inv_def)
  have reqs: "\<forall>m \<in> set ups. echo_request utf8 m" and "event_ok (nt_server st) (ReadDone r (no_error, length d, d))"
    using inv ok by (simp_all add: net_inv_def del: event_ok.simps)
  then obtain s' ms' where s': "server_step L (ReadDone r (no_error, length d, d)) (nt_server st) = (Ret (), s')"
    "server_end L r s' ?chan ms'" and alt: "ms' = ups \<and> \<not> server_awaits_message r (nt_server st) \<and> server_ops r s' = ?ops \<or> (\<exists>m. ups = m # ms' \<and>
      server_ops r s' = (if ?ops = [] then [\<lparr>wo_data = frame L (chat_body L (echo_response m)), wo_intact = True\<rparr>]
        else clobber ?ops))" by (rule server_end_reads [OF e])
  let ?st = "st\<lparr>nt_up := ?chan, nt_server := s', nt_down := nt_down st @ started ?ops (server_ops r s')\<rparr>"
  have step: "net_step L r (ServerReads d) st = (Ret (), ?st)" using s'(1) by (simp add: server_part_def del: server_step.simps)
  have "conserves L utf8 r st Silent ups downs ?st" if intact: "list_all wo_intact (server_ops r s')"
    using alt
  proof (elim disjE exE conjE)
    assume "ms' = ups" "server_ops r s' = ?ops"
    with inv s'(2) show ?thesis
      by (intro conserves_silent [of _ _ _ _ ups downs]) (simp_all add: net_inv_def)
  next
    fix m
    let ?op = "\<lparr>wo_data = frame L (chat_body L (echo_response m)), wo_intact = True\<rparr>"
    assume m: "ups = m # ms'" and ops: "server_ops r s' = (if ?ops = [] then [?op] else clobber ?ops)"
    have "?ops = []" using intact ops by (cases ?ops) (auto simp: clobber_def)
    moreover have "chat_fits utf8 (echo_response m)"
      using reqs m by (simp add: echo_request_def chat_fits_def echo_response_def)
    ultimately show ?thesis using inv s'(2) m ops reqs
      by (intro conserves_silent [of _ _ _ _ ms' "downs @ [echo_response m]"])
        (auto simp: net_inv_def client_end_append, simp add: echo_response_def)
  qed
  moreover have "?ops = [] \<longrightarrow> list_all wo_intact (server_ops r s')" using alt by auto
  moreover have "server_awaits_message r (nt_server st) \<and> ?ops \<noteq> [] \<longrightarrow> server_ops r s' = clobber ?ops" using alt by auto
  ultimately show ?thesis using step by auto
qed

lemma net_server_written:
  assumes inv: "net_inv L utf8 r st ups downs" and ok: "net_event_ok r st ServerWritten"
  shows "\<exists>st'. net_step L r ServerWritten st = (Ret (), st') \<and>
    conserves L utf8 r st (net_observed ServerWritten st st') ups downs st'"
proof -
  have "server_end L r (nt_server st) (nt_up st) ups" using inv by (simp add: net_inv_def)
  moreover obtain op ops where op: "server_ops r (nt_server st) = op # ops" using ok by (auto simp: neq_Nil_conv)
  moreover have "wo_intact op" using inv op by (simp add: net_inv_def)
  ultimately obtain s' where s': "server_step L (SendDone r no_error (length (wo_data op))) (nt_server st) = (Ret (), s')"
    "server_end L r s' (nt_up st) ups" "server_ops r s' = []" by (rule server_end_written)
  then show ?thesis using inv op
    by (intro exI [of _ "st\<lparr>nt_server := s'\<rparr>"] conjI conserves_silent [of _ _ _ _ ups downs])
      (simp_all add: server_part_def net_inv_def del: server_step.simps)
qed

lemma net_other_client:
  assumes inv: "net_inv L utf8 r st ups downs" and ok: "net_event_ok r st (OtherClient e)"
    and step: "net_step L r (OtherClient e) st = (Ret (), st')"
  shows "conserves L utf8 r st (net_observed (OtherClient e) st st') ups downs st'"
proof -
  obtain s' where s': "server_step L e (nt_server st) = (Ret (), s')"
    "st' = st\<lparr>nt_server := s', nt_down := nt_down st @ started (server_ops r (nt_server st)) (server_ops r s')\<rparr>"
    using step by (auto simp: server_part_def split: prod.splits)
  have "server_end L r (nt_server st) (nt_up st) ups" using inv by (simp add: net_inv_def)
  note other = server_end_other [OF this _ _ _ s'(1)]
  from ok other inv show ?thesis unfolding s'(2)
    by (intro conserves_silent [of _ _ _ _ ups downs]) (simp_all add: net_inv_def)
qed

text \<open>Progress: the two programs fail on no event of their own. Preservation: transitions conserve.\<close>

lemma net_progress:
  assumes "net_inv L utf8 r st ups downs" and "net_event_ok r st e" and "user_ok utf8 st e" and "\<forall>e'. e \<noteq> OtherClient e'"
  shows "\<exists>st'. net_step L r e st = (Ret (), st')"
  using assms user_types_progress [OF assms(1)] net_client_reads [OF assms(1)] net_client_written [OF assms(1)]
    net_server_reads [OF assms(1)] net_server_written [OF assms(1)]
  by (cases e) blast+

lemma net_preservation:
  assumes "net_inv L utf8 r st ups downs" and "fair_trans L utf8 r st (e, ob) st'"
  shows "conserves L utf8 r st ob ups downs st'"
proof -
  have t: "net_event_ok r st e" "net_step L r e st = (Ret (), st')"
    "list_all wo_intact (server_ops r (nt_server st'))" "ob = net_observed e st st'"
    using assms(2) by (simp_all add: fair_trans_def net_trans_def)
  show ?thesis
  proof (cases e)
    case (UserTypes n data)
    from net_user_types [OF assms(1), of n data ob st'] assms(2) UserTypes show ?thesis by simp
  next
    case (ClientReads d)
    from net_client_reads [OF assms(1), of d] t(1,2,4) ClientReads show ?thesis by (metis Pair_inject)
  next
    case ClientWritten
    from net_client_written [OF assms(1)] t(1,2,4) ClientWritten show ?thesis by (metis Pair_inject)
  next
    case (ServerReads d)
    from net_server_reads [OF assms(1), of d] t ServerReads show ?thesis by (metis Pair_inject)
  next
    case ServerWritten
    from net_server_written [OF assms(1)] t(1,2,4) ServerWritten show ?thesis by (metis Pair_inject)
  next
    case (OtherClient e')
    from net_other_client [OF assms(1), of e' st'] t(1,2,4) OtherClient show ?thesis by simp
  qed
qed

lemma net_run:
  "run_of (fair_trans L utf8 r) st es st' \<Longrightarrow> net_inv L utf8 r st ups downs \<Longrightarrow> conserved_in L utf8 r st es ups downs st'"
proof (induction arbitrary: ups downs rule: run_of.induct)
  case (stop st)
  then show ?case unfolding conserved_in_def by (intro exI [of _ "[]"] exI [of _ ups] exI [of _ downs]) simp
next
  case (go st eo st1 es st')
  obtain e ob where eo: "eo = (e, ob)" by fastforce
  from net_preservation [OF go.prems, of e ob st1] go.hyps(1) eo obtain shown1 ups1 downs1 where
    one: "net_inv L utf8 r st1 ups1 downs1" and
    eq1: "shown1 @ downs1 @ map echo_response ups1 = downs @ map echo_response (ups @ sent_of ob)" and
    d1: "on_std_logger st \<longrightarrow> on_std_logger st1 \<and> displayed_of ob = concat (map shown_text shown1)"
    unfolding conserves_def by blast
  from go.IH [OF one] obtain shown ups' downs' where rest: "net_inv L utf8 r st' ups' downs'" and
    eq: "shown @ downs' @ map echo_response ups' = downs1 @ map echo_response (ups1 @ sent_in es)" and
    d: "on_std_logger st1 \<longrightarrow> on_std_logger st' \<and> displayed_in es = concat (map shown_text shown)"
    unfolding conserved_in_def by blast
  have "(shown1 @ shown) @ downs' @ map echo_response ups' =
      (shown1 @ downs1 @ map echo_response ups1) @ map echo_response (sent_in es)" using eq by simp
  also have "\<dots> = downs @ map echo_response (ups @ sent_in (eo # es))" unfolding eq1 by (simp add: eo)
  finally show ?case using rest d1 d unfolding conserved_in_def
    by (intro exI [of _ "shown1 @ shown"] exI [of _ ups'] exI [of _ downs']) (auto simp: eo)
qed

lemma net_invariant: "invariant_of (fair_trans L utf8 r) (\<lambda>st. \<exists>ups downs. net_inv L utf8 r st ups downs)"
proof
  fix st eo st'
  assume "\<exists>ups downs. net_inv L utf8 r st ups downs" and "fair_trans L utf8 r st eo st'"
  then obtain ups downs where "net_inv L utf8 r st ups downs" "fair_trans L utf8 r st (fst eo, snd eo) st'" by auto
  from net_preservation [OF this] show "\<exists>ups downs. net_inv L utf8 r st' ups downs" unfolding conserves_def by blast
qed

text \<open>Nothing is in flight when both channels are empty.\<close>

lemma net_inv_empty:
  assumes "net_inv L utf8 r st ups downs" and "nt_up st = []" and "nt_down st = []"
  shows "ups = [] \<and> downs = []"
proof -
  have "\<forall>m \<in> set ups. framable (chat_body L m)" "\<forall>m \<in> set downs. framable (chat_body L m)"
    using assms(1) fitting_body(2) by (auto simp: net_inv_def echo_request_def)
  moreover obtain c :: TcpConnection where "carries L (tc_reader c) (tc_protocol c) [] (map (chat_body L) ups)"
    using assms by (auto simp: net_inv_def server_end_def)
  moreover have "carries L (cl_reader (ca_client (nt_app st))) (cl_protocol (ca_client (nt_app st))) [] (map (chat_body L) downs)"
    using assms by (simp add: net_inv_def client_end_def)
  ultimately have "map (chat_body L) ups = [] \<and> map (chat_body L) downs = []" by (metis carries_empty image_iff set_map)
  then show ?thesis by simp
qed

subsection \<open>Draining the channels\<close>

text \<open>Unless both channels are empty, some event other than typing is possible and brings the end nearer.\<close>

definition net_rel :: "ref \<Rightarrow> (net \<times> net) set" where
  "net_rel r = measures [\<lambda>st. length (nt_up st), \<lambda>st. length (server_ops r (nt_server st)), \<lambda>st. length (nt_down st)]"

lemma wf_net_rel: "wf (net_rel r)"
  by (simp add: net_rel_def)

lemma drain_written:
  assumes inv: "net_inv L utf8 r st ups downs" and ops: "server_ops r (nt_server st) \<noteq> []"
  shows "\<exists>ob st'. net_trans L r st (ServerWritten, ob) st' \<and> sent_of ob = [] \<and> (st', st) \<in> net_rel r"
proof -
  obtain op ops' where op: "server_ops r (nt_server st) = op # ops'" using ops by (auto simp: neq_Nil_conv)
  have "server_end L r (nt_server st) (nt_up st) ups" "wo_intact op" using inv op by (simp_all add: net_inv_def)
  from server_end_written [OF this(1) op this(2)] obtain s' where
    "server_step L (SendDone r no_error (length (wo_data op))) (nt_server st) = (Ret (), s')" "server_ops r s' = []" by blast
  then have "net_trans L r st (ServerWritten, Silent) (st\<lparr>nt_server := s'\<rparr>)" "(st\<lparr>nt_server := s'\<rparr>, st) \<in> net_rel r"
    using op by (simp_all add: net_trans_def server_part_def net_rel_def del: server_step.simps)
  then show ?thesis by (metis sent_of.simps(3))
qed

lemma drain_server_reads:
  assumes inv: "net_inv L utf8 r st ups downs" and "server_ops r (nt_server st) = []" and "nt_up st \<noteq> []"
  shows "\<exists>d ob st'. net_trans L r st (ServerReads d, ob) st' \<and> sent_of ob = [] \<and> (st', st) \<in> net_rel r"
proof -
  obtain c where c: "map_of (sv_connections (nt_server st)) r = Some c" "conn_running c"
    "carries L (tc_reader c) (tc_protocol c) (nt_up st) (map (chat_body L) ups)"
    using inv by (auto simp: net_inv_def server_end_def)
  have "\<forall>b \<in> set (map (chat_body L) ups). framable b" using inv fitting_body(2) by (auto simp: net_inv_def echo_request_def)
  moreover have "proto_mode TcpConnection_handleRead_cb (tc_reader c) (tc_protocol c)" "Protocol_inv (tc_protocol c)"
    using c(2) by (simp_all add: conn_running_def conn_inv_def proto_inv_def)
  ultimately obtain d where d: "d \<noteq> []" "take (length d) (nt_up st) = d" "completion_ok (no_error, length d, d) (tc_reader c)"
    using carries_enabled [OF _ _ c(3) _ assms(3)] by metis
  then have ok: "net_event_ok r st (ServerReads d)" using c(1) by simp
  from net_server_reads [OF inv this] assms(2) obtain st' where
    st': "net_step L r (ServerReads d) st = (Ret (), st')" "list_all wo_intact (server_ops r (nt_server st'))" by blast
  then have "nt_up st' = drop (length d) (nt_up st)" by (auto simp: server_part_def split: prod.splits)
  then have "(st', st) \<in> net_rel r" using d(1) assms(3) by (simp add: net_rel_def)
  moreover have "net_trans L r st (ServerReads d, Silent) st'" using st' ok
    by (simp add: net_trans_def del: net_event_ok.simps net_step.simps)
  ultimately show ?thesis by (metis sent_of.simps(3))
qed

lemma drain_client_reads:
  assumes inv: "net_inv L utf8 r st ups downs" and "nt_down st \<noteq> []"
  shows "\<exists>d ob st'. net_trans L r st (ClientReads d, ob) st' \<and> sent_of ob = [] \<and> (st', st) \<in> net_rel r"
proof -
  let ?c = "ca_client (nt_app st)"
  have c: "client_inv ?c" "cl_connecting ?c = None" "carries L (cl_reader ?c) (cl_protocol ?c) (nt_down st) (map (chat_body L) downs)"
    using inv by (simp_all add: net_inv_def client_end_def app_inv_def)
  have "\<forall>b \<in> set (map (chat_body L) downs). framable b" using inv fitting_body(2) by (auto simp: net_inv_def)
  moreover have "proto_mode AsyncTcpClient_handleRead_cb (cl_reader ?c) (cl_protocol ?c)" "Protocol_inv (cl_protocol ?c)"
    using c(1,2) by (simp_all add: client_inv_def proto_inv_def)
  ultimately obtain d where d: "d \<noteq> []" "take (length d) (nt_down st) = d" "completion_ok (no_error, length d, d) (cl_reader ?c)"
    using carries_enabled [OF _ _ c(3) _ assms(2)] by metis
  then have ok: "net_event_ok r st (ClientReads d)" by simp
  from net_client_reads [OF inv this] obtain st' where st': "net_step L r (ClientReads d) st = (Ret (), st')"
    "nt_up st' = nt_up st" by blast
  then have same: "nt_server st' = nt_server st" "nt_down st' = drop (length d) (nt_down st)"
    by (auto simp: client_part_def split: prod.splits)
  have "list_all wo_intact (server_ops r (nt_server st'))" using inv same(1) by (simp add: net_inv_def)
  then have "net_trans L r st (ClientReads d, net_observed (ClientReads d) st st') st'" using st'(1) ok
    by (simp add: net_trans_def del: net_event_ok.simps net_step.simps)
  moreover have "sent_of (net_observed (ClientReads d) st st') = []"
    by simp
  moreover have "(st', st) \<in> net_rel r" using d(1) assms(2) same st'(2) by (simp add: net_rel_def)
  ultimately show ?thesis by blast
qed

lemma net_drains:
  "net_inv L utf8 r st ups downs \<Longrightarrow> \<exists>es st'. run_of (net_trans L r) st es st' \<and>
     nt_up st' = [] \<and> nt_down st' = [] \<and> sent_in es = []"
proof (induction st arbitrary: ups downs rule: wf_induct_rule [OF wf_net_rel [of r]])
  case (1 st)
  show ?case
  proof (cases "nt_up st = [] \<and> nt_down st = []")
    case True
    then show ?thesis by (intro exI [of _ "[]"] exI [of _ st]) (simp add: run_of.stop)
  next
    case False
    then obtain e ob st1 where step: "net_trans L r st (e, ob) st1" "sent_of ob = []" "(st1, st) \<in> net_rel r"
      using drain_written [OF 1(2)] drain_server_reads [OF 1(2)] drain_client_reads [OF 1(2)] by metis
    then have "fair_trans L utf8 r st (e, ob) st1" by (simp add: fair_trans_def)
    from net_preservation [OF 1(2) this] obtain ups' downs' where "net_inv L utf8 r st1 ups' downs'"
      unfolding conserves_def by blast
    from 1(1) [OF step(3) this] obtain es st' where "run_of (net_trans L r) st1 es st'" "nt_up st' = []" "nt_down st' = []"
      "sent_in es = []" by blast
    then show ?thesis using step(1,2)
      by (intro exI [of _ "(e, ob) # es"] exI [of _ st']) (simp add: run_of.go [of "net_trans L r" st "(e, ob)" st1])
  qed
qed

end

subsection \<open>A connection is made\<close>

text \<open>
  The client's connect completes and the server, in any state of its invariant, accepts: the welcome
  message is on its way.
\<close>

definition net_start :: "extlib \<Rightarrow> ref \<Rightarrow> net \<Rightarrow> bool" where
  "net_start L r st \<longleftrightarrow>
     (\<exists>app. app_inv app \<and> cl_connecting (ca_client app) \<noteq> None \<and> client_ops app = [] \<and>
        client_step L (ConnectDone no_error) app = (Ret (), nt_app st)) \<and>
     (\<exists>s. server_inv s \<and> Suc (sv_nextRef s) < 2 ^ 64 \<and> sv_accepting s = [r] \<and>
        server_step L (AcceptDone no_error) s = (Ret (), nt_server st)) \<and>
     nt_up st = [] \<and> nt_down st = started [] (server_ops r (nt_server st))"

context protobuf
begin

lemma welcome_fits: "chat_fits utf8 welcome_message"
  using utf8_ascii [of "cm_text welcome_message"]
  by (simp add: chat_fits_def welcome_message_def ChatMessage_default_def MAX_READ_BUFFER_SIZE_BYTES_def)

lemma net_start_inv:
  assumes "net_start L r st"
  shows "net_inv L utf8 r st [] [welcome_message]" and "server_ops r (nt_server st) \<noteq> []" and "nt_up st = []"
proof -
  obtain app where app: "app_inv app" "cl_connecting (ca_client app) \<noteq> None"
    "client_step L (ConnectDone no_error) app = (Ret (), nt_app st)" using assms by (auto simp: net_start_def)
  then have "client_inv (ca_client app)" by (simp add: app_inv_def)
  from connect_ok [OF this app(2) failed_no_error, of "ca_log app"] app(3) obtain c' where
    c': "app\<lparr>ca_client := c'\<rparr> = nt_app st" "client_ready c'" by (auto simp: on_client_def)
  obtain s where s: "server_inv s" "Suc (sv_nextRef s) < 2 ^ 64" "sv_accepting s = [r]"
    "server_step L (AcceptDone no_error) s = (Ret (), nt_server st)" using assms by (auto simp: net_start_def)
  let ?F = "frame L (chat_body L welcome_message)"
  from server_accept_step [OF s(1-3), of no_error] s(4) obtain c where c: "server_inv (nt_server st)"
    "map_of (sv_connections (nt_server st)) r = Some c" "await_frame c" "tc_pendingWrites c = [\<lparr>wo_data = ?F, wo_intact = True\<rparr>]"
    by auto
  have ops: "server_ops r (nt_server st) = [\<lparr>wo_data = ?F, wo_intact = True\<rparr>]" by (simp add: server_ops_def c(2,4))
  have chans: "nt_up st = []" "nt_down st = ?F" using assms ops by (simp_all add: net_start_def)
  have "client_end L (nt_app st) ?F [welcome_message]"
    using c'(2) app(1) by (simp add: client_end_def app_inv_def client_ready_def carries_def flip: c'(1))
  moreover have "server_end L r (nt_server st) [] []" using c by (auto simp: server_end_def await_frame_def carries_start)
  ultimately show "net_inv L utf8 r st [] [welcome_message]" using chans ops welcome_fits
    by (simp add: net_inv_def welcome_message_def)
  show "server_ops r (nt_server st) \<noteq> []" "nt_up st = []" using ops chans by simp_all
qed

end

interpretation wire_net: invariant_of "fair_trans wire_lib valid_utf8 r"
  "\<lambda>st. \<exists>ups downs. net_inv wire_lib valid_utf8 r st ups downs"
  by (rule wire.net_invariant)

subsection \<open>A sample connection\<close>

lemma sample_start:
  obtains st where "net_start wire_lib 1 st" and "on_std_logger st"
    and "app_inv (nt_app st)" and "client_ops (nt_app st) = []"
    and "readBuffer (al_reader (ca_loop (nt_app st))) = []"
    and "maxBufferSize (al_reader (ca_loop (nt_app st))) = MAX_READ_BUFFER_SIZE_BYTES"
proof -
  let ?lw = "registerInstance std_logger initial_logw"
  obtain app where a: "client_setup wire_lib (\<lambda>_. no_error) (\<lambda>_. no_error) ''::1'' 54321 ?lw = (Ret app, ?lw)"
    using wire.setup_returns [of "\<lambda>_. no_error" "''::1''" "\<lambda>_. no_error" 54321 ?lw] by auto
  note app = wire.setup_inv [OF a]
  have "client_inv (ca_client app)" "cl_connecting (ca_client app) \<noteq> None" using app(1,2) by (simp_all add: app_inv_def)
  from connect_ok [OF this failed_no_error, of "ca_log app"] obtain c where
    c: "client_step wire_lib (ConnectDone no_error) app = (Ret (), app\<lparr>ca_client := c\<rparr>)" "client_ready c"
      "cl_writer c = AsyncWriter_ctor" by (auto simp: on_client_def app(4))
  have b: "Suc (sv_nextRef busy_server) < 2 ^ 64" "sv_accepting busy_server = [1]" by (simp_all add: busy_server_def)
  from wire.server_accept_step [OF busy_server_inv b, of no_error] obtain s where
    s: "server_step wire_lib (AcceptDone no_error) busy_server = (Ret (), s)" by auto
  let ?st = "\<lparr>nt_app = app\<lparr>ca_client := c\<rparr>, nt_server = s, nt_up = [], nt_down = started [] (server_ops 1 s)\<rparr>"
  have "client_ops app = []" "client_ops (app\<lparr>ca_client := c\<rparr>) = []"
    using app(4) c(3) by (simp_all add: client_ops_def AsyncWriter_ctor_def)
  then have "net_start wire_lib 1 ?st"
    using app(1,2) c(1) s b busy_server_inv unfolding net_start_def
    by (intro conjI exI [of _ app] exI [of _ busy_server]) (simp_all del: client_step.simps server_step.simps)
  with app(1,5-7) c show thesis
    by (intro that [of ?st]) (simp_all add: on_std_logger_def app_inv_def client_ready_def client_ops_def AsyncWriter_ctor_def)
qed

text \<open>A user who types a command to an idle client.\<close>

lemma sample_command: "command_text '' >echo hi'' = ''hi''"
  by (simp add: command_text_def trimWhitespace_eq remove_prefix_def sv_size_def ECHO_CMD_PREFIX_def
      trim_left_def trim_right_def blanks_def)

lemma sample_typing:
  obtains st st1 m where "net_start wire_lib 1 st" and "on_std_logger st" and "cm_text m = ''hi''"
    and "valid_utf8 (cm_text m)" and "length (cm_text m) + 23 \<le> MAX_READ_BUFFER_SIZE_BYTES"
    and "net_trans wire_lib 1 st (UserTypes 10 '' >echo hi\<newline>'', Sent m) st1"
proof -
  obtain st where st: "net_start wire_lib 1 st" "on_std_logger st" "app_inv (nt_app st)"
    "client_ops (nt_app st) = []" "readBuffer (al_reader (ca_loop (nt_app st))) = []"
    "maxBufferSize (al_reader (ca_loop (nt_app st))) = MAX_READ_BUFFER_SIZE_BYTES" by (rule sample_start)
  let ?line = "'' >echo hi\<newline>''" and ?e = "UserTypes 10 '' >echo hi\<newline>''"
  let ?m = "echo_message (ca_echoCommandId (nt_app st)) ''hi''"
  have ok: "net_event_ok 1 st ?e"
    using st(3,5,6) by (simp add: app_inv_def waiting_until_def completion_ok_def MAX_READ_BUFFER_SIZE_BYTES_def)
  have tx: "command_text (typed_line (nt_app st) ?line) = ''hi''"
    using sample_command by (simp add: typed_line_def st(5))
  have b: "set '' '' \<subseteq> set blanks" "set [] \<subseteq> set blanks" "trim_left ''hi'' = ''hi''" "trim_right ''hi'' = ''hi''"
    "CHR 0x0A \<notin> set ''hi''" "length ('' '' @ ECHO_CMD_PREFIX @ '' '' @ ''hi'' @ []) < MAX_READ_BUFFER_SIZE_BYTES"
    "?line = ('' '' @ ECHO_CMD_PREFIX @ '' '' @ ''hi'' @ []) @ [CHR 0x0A]"
    by (simp_all add: trim_left_def trim_right_def blanks_def ECHO_CMD_PREFIX_def MAX_READ_BUFFER_SIZE_BYTES_def)
  have free: "\<not> writeInProgress (cl_writer (ca_client (nt_app st)))"
    using st(3,4) by (auto simp: app_inv_def client_inv_def writer_inv_def client_ops_def split: if_splits)
  from client_types_echo [OF wire.protobuf_axioms st(3) free st(5,6) b(1,1,2-7)] obtain app' where
    app': "client_step wire_lib (InputRead (no_error, length ?line, ?line)) (nt_app st) = (Ret (), app')"
      "client_ops app' = [\<lparr>wo_data = frame wire_lib (chat_body wire_lib ?m), wo_intact = True\<rparr>]"
    by (auto simp: client_ops_def simp del: client_step.simps)
  let ?st1 = "st\<lparr>nt_app := app', nt_up := nt_up st @ started (client_ops (nt_app st)) (client_ops app')\<rparr>"
  have "length ?line = 10" by simp
  from app'(1) [unfolded this] have "net_step wire_lib 1 ?e st = (Ret (), ?st1)" by (simp add: client_part_def del: client_step.simps)
  moreover have "list_all wo_intact (server_ops 1 (nt_server ?st1))" using wire.net_start_inv(1) [OF st(1)] by (simp add: net_inv_def)
  moreover have "net_observed ?e st ?st1 = Sent ?m" using app'(2) st(4) tx by simp
  ultimately have "net_trans wire_lib 1 st (?e, Sent ?m) ?st1" using ok
    by (simp add: net_trans_def del: net_step.simps net_event_ok.simps net_observed.simps)
  with st(1,2) wire.utf8_ascii [of "''hi''"] show thesis
    by (intro that [of st ?m ?st1]) (simp_all add: echo_message_def MAX_READ_BUFFER_SIZE_BYTES_def)
qed

subsection \<open>Properties\<close>

text \<open>
  C5. Both programs and the network together. The client logs to the standard output, as its
  \<open>main\<close> arranges, and the text of every command it sends is valid UTF-8 and has at most 1001 bytes,
  so that its message fits the server's buffer. Then after any interleaving of typing, completed reads
  and writes at both ends and events of the server's other clients, as long as no answer is overrun,
  the text that the reads have put on the client's display is that of a prefix of the welcome message
  followed by the responses to the commands it has sent, in order; and when both channels are empty it
  is that of all of them: every sent command has been answered on the display.
\<close>

theorem closed_system_conserves:
  assumes "protobuf L utf8" and "net_start L r st0" and "lw_instance (ca_log (nt_app st0)) = std_logger"
    and "run_of (net_trans L r) st0 es st"
    and "\<forall>m \<in> set (sent_in es). utf8 (cm_text m) \<and> length (cm_text m) + 23 \<le> MAX_READ_BUFFER_SIZE_BYTES"
  shows "\<exists>shown transit. shown @ transit = welcome_message # map (\<lambda>m. m\<lparr>cm_type := ChatMessage_ECHO_RESPONSE\<rparr>) (sent_in es) \<and>
    displayed_in es = concat (map shown_text shown) \<and> (nt_up st = [] \<and> nt_down st = [] \<longrightarrow> transit = [])"
proof -
  have "run_of (fair_trans L utf8 r) st0 es st" using assms(4,5) by (intro fair_run) (simp_all add: sendable_def)
  from protobuf.net_run [OF assms(1) this protobuf.net_start_inv(1) [OF assms(1,2)]] assms(3) obtain shown ups downs where
    n: "net_inv L utf8 r st ups downs" "shown @ downs @ map echo_response ups = welcome_message # map echo_response (sent_in es)"
    "displayed_in es = concat (map shown_text shown)" by (auto simp: conserved_in_def on_std_logger_def)
  have "map echo_response (sent_in es) = map (\<lambda>m. m\<lparr>cm_type := ChatMessage_ECHO_RESPONSE\<rparr>) (sent_in es)"
    by (simp add: echo_response_def)
  with n protobuf.net_inv_empty [OF assms(1) n(1)] show ?thesis
    by (intro exI [of _ shown] exI [of _ "downs @ map echo_response ups"]) auto
qed

theorem closed_system_conserves_witness:
  "\<exists>st0 es st. net_start wire_lib 1 st0 \<and> run_of (net_trans wire_lib 1) st0 es st \<and>
     displayed_in es = ''DBG: handle Echo receive client\<newline>ECHO_RSP id:1  text: \"\<newline>Welcome to ACS chat!\<newline>Just type your message.\<newline>\"\<newline>''"
proof -
  obtain st0 where st0: "net_start wire_lib 1 st0" "on_std_logger st0" by (rule sample_start)
  from wire.net_drains [OF wire.net_start_inv(1) [OF st0(1)]] obtain es st where
    run: "run_of (net_trans wire_lib 1) st0 es st" "nt_up st = []" "nt_down st = []" "sent_in es = []" by blast
  have "show_nat 1 = ''1''" by code_simp
  with closed_system_conserves [OF wire.protobuf_axioms st0(1) _ run(1)] run st0 show ?thesis
    by (auto simp: on_std_logger_def shown_text_def welcome_message_def ChatMessage_default_def)
qed

text \<open>
  C4. The two programs never fail each other: in every state of such a run, whatever the user types
  (as long as the text is valid UTF-8 and fits the server's buffer), each event of the client and of
  its connection that can happen returns normally. No exception is thrown, no assertion fails and
  nothing is undefined before an answer has been overrun.
\<close>

theorem closed_system_progress:
  assumes "protobuf L utf8" and "net_start L r st0" and "run_of (net_trans L r) st0 es st"
    and "\<forall>m \<in> set (sent_in es). utf8 (cm_text m) \<and> length (cm_text m) + 23 \<le> MAX_READ_BUFFER_SIZE_BYTES"
    and "net_event_ok r st e" and "user_ok utf8 st e" and "\<forall>e'. e \<noteq> OtherClient e'"
  shows "\<exists>st'. net_step L r e st = (Ret (), st')"
proof -
  have "run_of (fair_trans L utf8 r) st0 es st" using assms(3,4) by (intro fair_run) (simp_all add: sendable_def)
  moreover have "\<exists>ups downs. net_inv L utf8 r st0 ups downs" using protobuf.net_start_inv(1) [OF assms(1,2)] by blast
  ultimately obtain ups downs where "net_inv L utf8 r st ups downs"
    using invariant_of.run_good [OF protobuf.net_invariant [OF assms(1)]] by blast
  from protobuf.net_progress [OF assms(1) this assms(5-7)] show ?thesis .
qed

theorem closed_system_progress_witness:
  "\<exists>st0 st'. net_start wire_lib 1 st0 \<and> net_step wire_lib 1 ServerWritten st0 = (Ret (), st')"
proof -
  obtain st0 where st0: "net_start wire_lib 1 st0" by (rule sample_start)
  from closed_system_progress [OF wire.protobuf_axioms st0 run_of.stop, of ServerWritten]
    wire.net_start_inv(2) [OF st0] st0 show ?thesis by auto
qed

end
