(* ===== verification/Quiescence.thy ===== *)
theory Quiescence
  imports Closed_System
begin

text \<open>
  How runs of the two programs end. Without further typing the closed system comes to rest, and at
  rest everything that was sent has been shown; and what happens when an answer is overrun, the one
  thing the transitions of \<open>Closed_System\<close> leave out.
\<close>

subsection \<open>Coming to rest\<close>

text \<open>The events of the two programs' own connection; the rest is the users' doing.\<close>

fun internal :: "net_event \<Rightarrow> bool" where
  "internal (UserTypes n data) = False"
| "internal (OtherClient e) = False"
| "internal _ = True"

definition internal_trans :: "extlib \<Rightarrow> ref \<Rightarrow> net \<Rightarrow> net_event \<times> net_obs \<Rightarrow> net \<Rightarrow> bool" where
  "internal_trans L r st eo st' \<longleftrightarrow> internal (fst eo) \<and> net_trans L r st eo st'"

text \<open>Bytes only leave the channel to the server; answers are written once; then the way down is emptied.\<close>

definition rest_rel :: "ref \<Rightarrow> (net \<times> net) set" where
  "rest_rel r = measures [\<lambda>st. length (nt_up st), \<lambda>st. length (server_ops r (nt_server st)), \<lambda>st. length (nt_down st),
     \<lambda>st. length (client_ops (nt_app st))]"

lemma internal_sends_nothing: "internal_trans L r st eo st' \<Longrightarrow> sent_of (snd eo) = []"
  by (cases eo, cases "fst eo") (auto simp: internal_trans_def net_trans_def)

lemma internal_run_sends_nothing: "run_of (internal_trans L r) st es st' \<Longrightarrow> sent_in es = []"
  by (induction rule: run_of.induct) (auto dest: internal_sends_nothing)

lemma internal_fair: "internal_trans L r st eo st' \<Longrightarrow> fair_trans L utf8 r st eo st'"
  using internal_sends_nothing [of L r st eo st'] by (auto simp: fair_trans_def internal_trans_def)

context protobuf
begin

text \<open>A reader in the frame loop never asks for nothing.\<close>

lemma carries_reads_some:
  assumes "proto_mode cb rd P" and "Protocol_inv P" and "carries L rd P chan bodies" and "\<forall>b \<in> set bodies. framable b"
    and "completion_ok (no_error, length d, d) rd"
  shows "d \<noteq> []"
  using assms by (auto simp: carries_def completion_ok_def await_prefix_def proto_mode_def Protocol_inv_def
      FRAME_PREFIX_SIZE_def framable_def)

lemma server_reads_some:
  assumes "net_inv L utf8 r st ups downs" and "net_event_ok r st (ServerReads d)"
  shows "d \<noteq> []"
proof -
  obtain c where c: "map_of (sv_connections (nt_server st)) r = Some c" "conn_running c"
    "carries L (tc_reader c) (tc_protocol c) (nt_up st) (map (chat_body L) ups)"
    using assms(1) by (auto simp: net_inv_def server_end_def)
  have "\<forall>b \<in> set (map (chat_body L) ups). framable b"
    using assms(1) fitting_body(2) by (auto simp: net_inv_def echo_request_def)
  moreover have "proto_mode TcpConnection_handleRead_cb (tc_reader c) (tc_protocol c)" "Protocol_inv (tc_protocol c)"
    using c(2) by (simp_all add: conn_running_def conn_inv_def proto_inv_def)
  moreover have "completion_ok (no_error, length d, d) (tc_reader c)" using assms(2) c(1) by simp
  ultimately show ?thesis using carries_reads_some [OF _ _ c(3)] by blast
qed

lemma client_reads_some:
  assumes "net_inv L utf8 r st ups downs" and "net_event_ok r st (ClientReads d)"
  shows "d \<noteq> []"
proof -
  let ?c = "ca_client (nt_app st)"
  have c: "client_inv ?c" "cl_connecting ?c = None" "carries L (cl_reader ?c) (cl_protocol ?c) (nt_down st) (map (chat_body L) downs)"
    using assms(1) by (simp_all add: net_inv_def client_end_def app_inv_def)
  have "\<forall>b \<in> set (map (chat_body L) downs). framable b" using assms(1) fitting_body(2) by (auto simp: net_inv_def)
  moreover have "proto_mode AsyncTcpClient_handleRead_cb (cl_reader ?c) (cl_protocol ?c)" "Protocol_inv (cl_protocol ?c)"
    using c(1,2) by (simp_all add: client_inv_def proto_inv_def)
  moreover have "completion_ok (no_error, length d, d) (cl_reader ?c)" using assms(2) by simp
  ultimately show ?thesis using carries_reads_some [OF _ _ c(3)] by blast
qed

lemma take_some: "d \<noteq> [] \<Longrightarrow> take (length d) chan = d \<Longrightarrow> length (drop (length d) chan) < length chan"
  by (cases chan) auto

lemma internal_below:
  assumes inv: "net_inv L utf8 r st ups downs" and step: "internal_trans L r st (e, ob) st'"
  shows "(st', st) \<in> rest_rel r"
proof -
  have t: "internal e" "net_event_ok r st e" "net_step L r e st = (Ret (), st')"
    using step by (simp_all add: internal_trans_def net_trans_def)
  show ?thesis
  proof (cases e)
    case (ServerReads d)
    have "nt_up st' = drop (length d) (nt_up st)" using t(3) ServerReads by (auto simp: server_part_def split: prod.splits)
    moreover have "take (length d) (nt_up st) = d" using t(2) ServerReads by simp
    ultimately show ?thesis using take_some [OF server_reads_some [OF inv]] t(2) ServerReads by (simp add: rest_rel_def)
  next
    case (ClientReads d)
    from net_client_reads [OF inv, of d] t(2,3) ClientReads have "nt_up st' = nt_up st" by auto
    moreover have "nt_server st' = nt_server st" "nt_down st' = drop (length d) (nt_down st)" "take (length d) (nt_down st) = d"
      using t(2,3) ClientReads by (auto simp: client_part_def split: prod.splits)
    ultimately show ?thesis using take_some [OF client_reads_some [OF inv]] t(2) ClientReads by (simp add: rest_rel_def)
  next
    case ServerWritten
    obtain op ops where op: "server_ops r (nt_server st) = op # ops" using t(2) ServerWritten by (auto simp: neq_Nil_conv)
    have "server_end L r (nt_server st) (nt_up st) ups" "wo_intact op" using inv op by (simp_all add: net_inv_def)
    from server_end_written [OF this(1) op this(2)] obtain s' where
      "server_step L (SendDone r no_error (length (wo_data op))) (nt_server st) = (Ret (), s')" "server_ops r s' = []" by blast
    then show ?thesis using t(3) ServerWritten op by (auto simp: server_part_def rest_rel_def simp del: server_step.simps)
  next
    case ClientWritten
    obtain op ops where op: "client_ops (nt_app st) = op # ops" using t(2) ClientWritten by (auto simp: neq_Nil_conv)
    have "client_end L (nt_app st) (nt_down st) downs" using inv by (simp add: net_inv_def)
    from client_end_written [OF this op] obtain app' where
      "client_step L (SocketWrite no_error (length (wo_data op))) (nt_app st) = (Ret (), app')" "client_ops app' = []" by blast
    then show ?thesis using t(3) ClientWritten op by (auto simp: client_part_def rest_rel_def simp del: client_step.simps)
  qed (use t(1) in simp_all)
qed

lemma net_terminating:
  "terminating (internal_trans L r) (\<lambda>st. \<exists>ups downs. net_inv L utf8 r st ups downs) (rest_rel r)"
proof unfold_locales
  fix st eo st'
  assume good: "\<exists>ups downs. net_inv L utf8 r st ups downs" and step: "internal_trans L r st eo st'"
  have "fair_trans L utf8 r st eo st'" using step by (rule internal_fair)
  with good show "\<exists>ups downs. net_inv L utf8 r st' ups downs" by (rule invariant_of.step_good [OF net_invariant])
  from good internal_below [of r st _ _ "fst eo" "snd eo" st'] step show "(st', st) \<in> rest_rel r" by auto
qed (simp add: rest_rel_def)

lemma at_rest_empty:
  assumes "net_inv L utf8 r st ups downs" and "\<forall>eo st'. \<not> internal_trans L r st eo st'"
  shows "nt_up st = [] \<and> nt_down st = []"
  using drain_written [OF assms(1)] drain_server_reads [OF assms(1)] drain_client_reads [OF assms(1)] assms(2)
  unfolding internal_trans_def by (metis fst_conv internal.simps(3,5,6))

end

interpretation wire_rest: terminating "internal_trans wire_lib r"
  "\<lambda>st. \<exists>ups downs. net_inv wire_lib valid_utf8 r st ups downs" "rest_rel r"
  by (rule wire.net_terminating)

subsection \<open>A request that arrives during a write\<close>

context protobuf
begin

lemma server_reads_prefix:
  assumes "server_inv s" and "map_of (sv_connections s) r = Some c" and "conn_running c"
    and "await_prefix (tc_protocol c) (tc_reader c)" and "echo_request utf8 m"
    and "d = take FRAME_PREFIX_SIZE (frame L (chat_body L m))"
  obtains s' where "server_step L (ReadDone r (no_error, length d, d)) s = (Ret (), s')"
    and "server_awaits_message r s'" and "server_ops r s' = server_ops r s"
    and "event_ok s (ReadDone r (no_error, length d, d))"
    and "event_ok s' (ReadDone r (no_error, length (chat_body L m), chat_body L m))"
proof -
  let ?b = "chat_body L m" and ?rd = "tc_reader c" and ?P = "tc_protocol c"
  let ?c = "c\<lparr>tc_reader := expecting ?b ?rd, tc_protocol := noted ?b ?P\<rparr>"
  let ?s = "s\<lparr>sv_connections := AList.update r ?c (sv_connections s), sv_log := sv_log s\<rparr>"
  have m: "proto_mode TcpConnection_handleRead_cb ?rd ?P" "Protocol_inv ?P" "maxBufferSize ?rd = MAX_READ_BUFFER_SIZE_BYTES"
    using assms(3) by (simp_all add: conn_running_def conn_inv_def proto_inv_def)
  have b: "framable ?b" "length ?b \<le> maxBufferSize ?rd"
    using fitting_body(2,3) [of m] assms(5) m(3) by (simp_all add: echo_request_def)
  have len: "length d = FRAME_PREFIX_SIZE" unfolding assms(6) by (rule framing.length_take_enc [OF framing_frame b(1)])
  from frame_prefix_step [OF m(1) assms(4) m(2) b failed_no_error, of "sv_log s"]
  have "TcpConnection_onRead L (no_error, length d, d) (c, sv_log s) = (Ret (), (?c, sv_log s))"
    by (simp add: TcpConnection_onRead_def len flip: assms(6))
  from on_conn_Some [of s r c "TcpConnection_onRead L (no_error, length d, d)", OF assms(2) this] len m assms(2,4) b
  show thesis
    by (intro that [of ?s])
      (simp_all add: server_awaits_message_def server_ops_def update_conv await_message_def expecting_def
        completion_ok_def proto_mode_def await_prefix_def Protocol_inv_def)
qed

end

text \<open>What an overrun is: the read returns, the outstanding write can complete, and that is undefined.\<close>

definition overruns :: "extlib \<Rightarrow> ref \<Rightarrow> string \<Rightarrow> net \<Rightarrow> bool" where
  "overruns L r d st \<longleftrightarrow> (\<exists>st'. net_step L r (ServerReads d) st = (Ret (), st') \<and> net_event_ok r st' ServerWritten \<and>
     fst (net_step L r ServerWritten st') = Undefined ''the buffer of async_write was modified'')"

context protobuf
begin

lemma busy_overrun:
  assumes "net_inv L utf8 r st ups downs" and "net_event_ok r st (ServerReads d)"
    and "server_awaits_message r (nt_server st)" and "server_ops r (nt_server st) \<noteq> []"
  shows "overruns L r d st"
proof -
  from net_server_reads [OF assms(1,2)] assms(3,4) obtain st' where
    step: "net_step L r (ServerReads d) st = (Ret (), st')" and
    ops: "server_ops r (nt_server st') = clobber (server_ops r (nt_server st))" by blast
  obtain c where c: "map_of (sv_connections (nt_server st')) r = Some c" "tc_pendingWrites c = clobber (server_ops r (nt_server st))"
    using ops assms(4) by (auto simp: server_ops_def clobber_def split: option.splits)
  obtain op ops' where "tc_pendingWrites c = op # ops'" "\<not> wo_intact op"
    using c(2) assms(4) by (cases "server_ops r (nt_server st)") (auto simp: clobber_def)
  then have "fst (net_step L r ServerWritten st') = Undefined ''the buffer of async_write was modified''"
    "net_event_ok r st' ServerWritten"
    using c(1) by (simp_all add: server_part_def server_ops_def TcpConnection_onWrite_def on_conn_def split: prod.splits)
  with step show ?thesis unfolding overruns_def by blast
qed

text \<open>One command typed before the welcome message has been written: prefix and body arrive.\<close>

lemma early_command_overruns:
  assumes start: "net_start L r st0" and typed: "net_trans L r st0 (UserTypes n data, Sent m) st1" and m: "sendable utf8 m"
  shows "\<exists>d b st2. nt_up st1 = d @ b \<and> net_event_ok r st1 (ServerReads d) \<and> net_step L r (ServerReads d) st1 = (Ret (), st2) \<and>
    net_event_ok r st2 (ServerReads b) \<and> overruns L r b st2"
proof -
  note inv0 = net_start_inv(1) [OF start]
  have "nt_up st1 = frame L (chat_body L m) \<and> nt_server st1 = nt_server st0 \<and> echo_request utf8 m"
  proof (cases rule: typed_cases [OF inv0 typed])
    case (2 app' m')
    with net_start_inv(3) [OF start] m show ?thesis by (simp add: sendable_def echo_request_def chat_fits_def)
  qed simp
  then have up: "nt_up st1 = frame L (chat_body L m)" "nt_server st1 = nt_server st0" and req: "echo_request utf8 m"
    by simp_all
  have "fair_trans L utf8 r st0 (UserTypes n data, Sent m) st1" using typed m by (simp add: fair_trans_def)
  from net_preservation [OF inv0 this] have inv1: "\<exists>ups downs. net_inv L utf8 r st1 ups downs"
    unfolding conserves_def by blast
  let ?b = "chat_body L m"
  define d where "d = take FRAME_PREFIX_SIZE (frame L ?b)"
  obtain c where c: "server_inv (nt_server st0)" "map_of (sv_connections (nt_server st0)) r = Some c" "conn_running c"
    "await_prefix (tc_protocol c) (tc_reader c)" using inv0 by (auto simp: net_inv_def server_end_def carries_def)
  obtain s' where s': "server_step L (ReadDone r (no_error, length d, d)) (nt_server st0) = (Ret (), s')"
    "server_awaits_message r s'" "server_ops r s' = server_ops r (nt_server st0)"
    "event_ok (nt_server st0) (ReadDone r (no_error, length d, d))" "event_ok s' (ReadDone r (no_error, length ?b, ?b))"
    by (rule server_reads_prefix [OF c req d_def])
  have "framable ?b" using fitting_body(2) [of m] req by (simp add: echo_request_def)
  from framing.take_enc [OF framing_frame this] have db: "nt_up st1 = d @ ?b" using up(1) by (simp add: d_def)
  let ?st = "st1\<lparr>nt_up := ?b, nt_server := s'\<rparr>"
  have ok: "net_event_ok r st1 (ServerReads d)" and step: "net_step L r (ServerReads d) st1 = (Ret (), ?st)"
    using s' up(2) db by (simp_all add: server_part_def del: server_step.simps event_ok.simps)
  have "list_all wo_intact (server_ops r (nt_server st1))" using inv1 by (auto simp: net_inv_def)
  then have "fair_trans L utf8 r st1 (ServerReads d, Silent) ?st"
    using ok step s'(3) up(2) by (simp add: fair_trans_def net_trans_def del: net_step.simps net_event_ok.simps)
  from invariant_of.step_good [OF net_invariant inv1 this] obtain ups downs where inv: "net_inv L utf8 r ?st ups downs" by blast
  have ok2: "net_event_ok r ?st (ServerReads ?b)" using s'(5) by (simp del: event_ok.simps)
  have "overruns L r ?b ?st"
    using s'(2,3) net_start_inv(2) [OF start] by (intro busy_overrun [OF inv ok2]) simp_all
  with db ok step ok2 show ?thesis by (intro exI [of _ d] exI [of _ ?b] exI [of _ ?st] conjI)
qed

end

subsection \<open>Properties\<close>

text \<open>
  C3. Every command is answered in the end. The client logs to the standard output, as its
  \<open>main\<close> arranges, and the text of every command it sends is valid UTF-8 and has at most 1001 bytes,
  so that its message fits the server's buffer. Then from every state of a run in which no answer is
  overrun, the reads and writes of the connection come to rest, however they are scheduled: there is a
  run to a state where none of them is possible and there is no infinite one; and whenever they have
  come to rest, the text that the reads have put on the client's display is the welcome message and the
  response to each command it has sent, in order.
\<close>

theorem closed_system_quiesces:
  assumes "protobuf L utf8" and "net_start L r st0" and "lw_instance (ca_log (nt_app st0)) = std_logger"
    and "run_of (net_trans L r) st0 es st"
    and "\<forall>m \<in> set (sent_in es). utf8 (cm_text m) \<and> length (cm_text m) + 23 \<le> MAX_READ_BUFFER_SIZE_BYTES"
  shows "(\<exists>es' st'. run_of (internal_trans L r) st es' st' \<and> (\<forall>eo st''. \<not> internal_trans L r st' eo st'')) \<and>
    \<not> (\<exists>f eos. f 0 = st \<and> (\<forall>i. internal_trans L r (f i) (eos i) (f (Suc i)))) \<and>
    (\<forall>es' st'. run_of (internal_trans L r) st es' st' \<and> (\<forall>eo st''. \<not> internal_trans L r st' eo st'') \<longrightarrow>
      displayed_in (es @ es') =
        concat (map shown_text (welcome_message # map (\<lambda>m. m\<lparr>cm_type := ChatMessage_ECHO_RESPONSE\<rparr>) (sent_in es))))"
proof (intro conjI allI impI notI)
  note start = protobuf.net_start_inv(1) [OF assms(1,2)]
  have run: "run_of (fair_trans L utf8 r) st0 es st" using assms(4,5) by (intro fair_run) (simp_all add: sendable_def)
  from protobuf.net_run [OF assms(1) run start] have good: "\<exists>ups downs. net_inv L utf8 r st ups downs"
    unfolding conserved_in_def by blast
  note rest = protobuf.net_terminating [OF assms(1), of r]
  show "\<exists>es' st'. run_of (internal_trans L r) st es' st' \<and> (\<forall>eo st''. \<not> internal_trans L r st' eo st'')"
    by (rule terminating.comes_to_rest [OF rest good])
  show False if "\<exists>f eos. f 0 = st \<and> (\<forall>i. internal_trans L r (f i) (eos i) (f (Suc i)))"
    using that terminating.no_infinite_run [OF rest] good by blast
  fix es' st'
  assume end_run: "run_of (internal_trans L r) st es' st' \<and> (\<forall>eo st''. \<not> internal_trans L r st' eo st'')"
  then have "run_of (fair_trans L utf8 r) st es' st'" by (auto elim: run_of_mono intro: internal_fair)
  from protobuf.net_run [OF assms(1) run_of_append [OF run this] start] assms(3) end_run internal_run_sends_nothing [of L r st es' st']
  obtain shown ups downs where n: "net_inv L utf8 r st' ups downs"
    "shown @ downs @ map echo_response ups = welcome_message # map echo_response (sent_in es)"
    "displayed_in (es @ es') = concat (map shown_text shown)" by (auto simp: conserved_in_def on_std_logger_def)
  from protobuf.at_rest_empty [OF assms(1) n(1)] protobuf.net_inv_empty [OF assms(1) n(1)] end_run n(2)
  have "shown = welcome_message # map (\<lambda>m. m\<lparr>cm_type := ChatMessage_ECHO_RESPONSE\<rparr>) (sent_in es)"
    by (simp add: echo_response_def [abs_def])
  with n(3) show "displayed_in (es @ es') =
      concat (map shown_text (welcome_message # map (\<lambda>m. m\<lparr>cm_type := ChatMessage_ECHO_RESPONSE\<rparr>) (sent_in es)))" by simp
qed

theorem closed_system_quiesces_witness:
  "\<exists>st0 st es' st' m. net_start wire_lib 1 st0 \<and> cm_text m = ''hi'' \<and>
     run_of (net_trans wire_lib 1) st0 [(UserTypes 10 '' >echo hi\<newline>'', Sent m)] st \<and>
     run_of (internal_trans wire_lib 1) st es' st' \<and>
     displayed_in es' = shown_text welcome_message @ ''DBG: handle Echo receive client\<newline>ECHO_RSP id:'' @
       show_nat (unat (cm_id m)) @ ''  text: \"\<newline>hi\<newline>\"\<newline>''"
proof -
  obtain st0 st m where s: "net_start wire_lib 1 st0" "on_std_logger st0" "cm_text m = ''hi''" "valid_utf8 (cm_text m)"
    "length (cm_text m) + 23 \<le> MAX_READ_BUFFER_SIZE_BYTES"
    "net_trans wire_lib 1 st0 (UserTypes 10 '' >echo hi\<newline>'', Sent m) st" by (rule sample_typing)
  then have run: "run_of (net_trans wire_lib 1) st0 [(UserTypes 10 '' >echo hi\<newline>'', Sent m)] st" by (blast intro: run_of.intros)
  from closed_system_quiesces [OF wire.protobuf_axioms s(1) _ run] s(2,4,5) obtain es' st' where
    rest: "run_of (internal_trans wire_lib 1) st es' st'"
    "displayed_in es' = concat (map shown_text [welcome_message, m\<lparr>cm_type := ChatMessage_ECHO_RESPONSE\<rparr>])"
    by (auto simp: on_std_logger_def)
  have "shown_text (m\<lparr>cm_type := ChatMessage_ECHO_RESPONSE\<rparr>) = ''DBG: handle Echo receive client\<newline>ECHO_RSP id:'' @
      show_nat (unat (cm_id m)) @ ''  text: \"\<newline>hi\<newline>\"\<newline>''" using s(3) by (simp add: shown_text_def)
  with rest(2) have "displayed_in es' = shown_text welcome_message @ ''DBG: handle Echo receive client\<newline>ECHO_RSP id:'' @
      show_nat (unat (cm_id m)) @ ''  text: \"\<newline>hi\<newline>\"\<newline>''"
    by (simp only: list.map concat.simps append_Nil2)
  with s(1,3) run rest(1) show ?thesis by blast
qed

text \<open>
  C21. The two programs can corrupt their own connection. In every state of a run in which no answer
  has been overrun, if a request has arrived whole while the server is still writing, an earlier answer
  or the welcome message, then reading it makes the server overwrite the buffer that the operating
  system is reading from, and when that write completes the behaviour is undefined. And one command is
  enough: if the first thing that happens on a new connection is that the user types a command that the
  client sends, then the server can read the prefix of its frame and then its body, and the
  completion of the welcome message's write is undefined.
\<close>

theorem own_client_overruns_server:
  assumes "protobuf L utf8" and "net_start L r st0"
  shows "(\<forall>es st d. run_of (net_trans L r) st0 es st \<and>
        (\<forall>m \<in> set (sent_in es). utf8 (cm_text m) \<and> length (cm_text m) + 23 \<le> MAX_READ_BUFFER_SIZE_BYTES) \<and>
        net_event_ok r st (ServerReads d) \<and> server_awaits_message r (nt_server st) \<and> server_ops r (nt_server st) \<noteq> [] \<longrightarrow>
      (\<exists>st'. net_step L r (ServerReads d) st = (Ret (), st') \<and> net_event_ok r st' ServerWritten \<and>
        fst (net_step L r ServerWritten st') = Undefined ''the buffer of async_write was modified'')) \<and>
    (\<forall>n data m st1. net_trans L r st0 (UserTypes n data, Sent m) st1 \<and>
        utf8 (cm_text m) \<and> length (cm_text m) + 23 \<le> MAX_READ_BUFFER_SIZE_BYTES \<longrightarrow>
      (\<exists>d b st2 st3. nt_up st1 = d @ b \<and>
        net_event_ok r st1 (ServerReads d) \<and> net_step L r (ServerReads d) st1 = (Ret (), st2) \<and>
        net_event_ok r st2 (ServerReads b) \<and> net_step L r (ServerReads b) st2 = (Ret (), st3) \<and>
        net_event_ok r st3 ServerWritten \<and>
        fst (net_step L r ServerWritten st3) = Undefined ''the buffer of async_write was modified''))"
proof (intro conjI allI impI)
  fix es st d
  assume a: "run_of (net_trans L r) st0 es st \<and>
      (\<forall>m \<in> set (sent_in es). utf8 (cm_text m) \<and> length (cm_text m) + 23 \<le> MAX_READ_BUFFER_SIZE_BYTES) \<and>
      net_event_ok r st (ServerReads d) \<and> server_awaits_message r (nt_server st) \<and> server_ops r (nt_server st) \<noteq> []"
  then have "run_of (fair_trans L utf8 r) st0 es st" by (intro fair_run) (simp_all add: sendable_def)
  from protobuf.net_run [OF assms(1) this protobuf.net_start_inv(1) [OF assms]] obtain ups downs where
    "net_inv L utf8 r st ups downs" unfolding conserved_in_def by blast
  from protobuf.busy_overrun [OF assms(1) this, of d] a
  show "\<exists>st'. net_step L r (ServerReads d) st = (Ret (), st') \<and> net_event_ok r st' ServerWritten \<and>
      fst (net_step L r ServerWritten st') = Undefined ''the buffer of async_write was modified''"
    unfolding overruns_def by blast
next
  fix n data m st1
  assume a: "net_trans L r st0 (UserTypes n data, Sent m) st1 \<and>
      utf8 (cm_text m) \<and> length (cm_text m) + 23 \<le> MAX_READ_BUFFER_SIZE_BYTES"
  then have "sendable utf8 m" by (simp add: sendable_def)
  from protobuf.early_command_overruns [OF assms a [THEN conjunct1] this]
  show "\<exists>d b st2 st3. nt_up st1 = d @ b \<and> net_event_ok r st1 (ServerReads d) \<and>
      net_step L r (ServerReads d) st1 = (Ret (), st2) \<and> net_event_ok r st2 (ServerReads b) \<and>
      net_step L r (ServerReads b) st2 = (Ret (), st3) \<and> net_event_ok r st3 ServerWritten \<and>
      fst (net_step L r ServerWritten st3) = Undefined ''the buffer of async_write was modified''"
    unfolding overruns_def by blast
qed

text \<open>A user who types \<open>>echo hi\<close> as soon as the connection is made.\<close>

theorem own_client_overruns_server_witness:
  "\<exists>st0 m st1 d b st2 st3. net_start wire_lib 1 st0 \<and> cm_text m = ''hi'' \<and>
     net_trans wire_lib 1 st0 (UserTypes 10 '' >echo hi\<newline>'', Sent m) st1 \<and> nt_up st1 = d @ b \<and>
     net_step wire_lib 1 (ServerReads d) st1 = (Ret (), st2) \<and> net_step wire_lib 1 (ServerReads b) st2 = (Ret (), st3) \<and>
     net_event_ok 1 st3 ServerWritten \<and>
     fst (net_step wire_lib 1 ServerWritten st3) = Undefined ''the buffer of async_write was modified''"
proof -
  obtain st0 st1 m where s: "net_start wire_lib 1 st0" "cm_text m = ''hi''" "valid_utf8 (cm_text m)"
    "length (cm_text m) + 23 \<le> MAX_READ_BUFFER_SIZE_BYTES"
    "net_trans wire_lib 1 st0 (UserTypes 10 '' >echo hi\<newline>'', Sent m) st1" by (rule sample_typing)
  from own_client_overruns_server [OF wire.protobuf_axioms s(1), THEN conjunct2, rule_format, of 10 "'' >echo hi\<newline>''" m st1] s(3-5)
  obtain d b st2 st3 where "nt_up st1 = d @ b" "net_step wire_lib 1 (ServerReads d) st1 = (Ret (), st2)"
    "net_step wire_lib 1 (ServerReads b) st2 = (Ret (), st3)" "net_event_ok 1 st3 ServerWritten"
    "fst (net_step wire_lib 1 ServerWritten st3) = Undefined ''the buffer of async_write was modified''" by blast
  with s(1,2,5) show ?thesis
    by (intro exI [of _ st0] exI [of _ m] exI [of _ st1] exI [of _ d] exI [of _ b] exI [of _ st2] exI [of _ st3] conjI)
qed

end
