(* ===== verification/Reader_Session.thy ===== *)
theory Reader_Session
  imports AsyncReader
begin

text \<open>
  The class \<^verbatim>\<open>conn::AsyncReader\<close> as its owner sees it: any sequence of calls of its public interface,
  interleaved with completions. An exception leaves the call, or the event loop, and the object can
  be used again; a failed assertion ends the process. \<open>reader_wf\<close> is the well-formedness of the object.
\<close>

subsection \<open>Sessions\<close>

datatype 'cb reader_call =
    ReadUntilDelim 'cb char bool
  | ReadUntilDelimInf 'cb char bool
  | ReadUntilDelimInfOccupy 'cb char bool
  | ReadProtoInfOccupy 'cb
  | Complete read_event

fun do_call :: "extlib \<Rightarrow> 'cb reader_call \<Rightarrow> 'cb reader_state \<Rightarrow> ('cb reader_state, 'cb delivery) run" where
  "do_call L (ReadUntilDelim cb d discard) (rd, P, lw) =
     (case readAsyncUntilDelim cb d discard (rd, lw) of (rd', lw') \<Rightarrow> (Ret NoCall, (rd', P, lw')))"
| "do_call L (ReadUntilDelimInf cb d discard) (rd, P, lw) =
     (case readAsyncUntilDelimInf cb d discard rd of (res, rd') \<Rightarrow> andThen (res, (rd', P, lw)) (\<lambda>_ st. (Ret NoCall, st)))"
| "do_call L (ReadUntilDelimInfOccupy cb d discard) (rd, P, lw) =
     (case readAsyncUntilDelimInfOccupy cb d discard (rd, lw) of (rd', lw') \<Rightarrow> (Ret NoCall, (rd', P, lw')))"
| "do_call L (ReadProtoInfOccupy cb) (rd, P, lw) =
     andThen (readAsyncProtoInfOccupy cb (rd, P, lw)) (\<lambda>_ st. (Ret NoCall, st))"
| "do_call L (Complete e) st = completeRead L e st"

fun reader_call_ok :: "'cb reader_call \<Rightarrow> 'cb AsyncReader \<Rightarrow> bool" where
  "reader_call_ok (Complete e) rd = completion_ok e rd"
| "reader_call_ok _ rd = True"

fun reader_session :: "extlib \<Rightarrow> 'cb reader_call list \<Rightarrow> 'cb reader_state \<Rightarrow> 'cb delivery outcome list \<times> 'cb reader_state" where
  "reader_session L [] st = ([], st)"
| "reader_session L (c # cs) st =
     (case do_call L c st of
        (AssertFail m, st') \<Rightarrow> ([AssertFail m], st')
      | (Undefined m, st') \<Rightarrow> ([Undefined m], st')
      | (res, st') \<Rightarrow> (case reader_session L cs st' of (outs, st'') \<Rightarrow> (res # outs, st'')))"

fun session_ok :: "extlib \<Rightarrow> 'cb reader_call list \<Rightarrow> 'cb reader_state \<Rightarrow> bool" where
  "session_ok L [] st = True"
| "session_ok L (c # cs) st = (reader_call_ok c (fst st) \<and> session_ok L cs (snd (do_call L c st)))"

subsection \<open>Well-formedness\<close>

text \<open>
  At most one operation is outstanding; it is within the limit of the buffer, belongs to a locked
  reader with a callback, and one of the frame loop has a protocol object and repeats.
\<close>

fun op_wf :: "'cb AsyncReader \<Rightarrow> read_request \<times> read_handler \<Rightarrow> bool" where
  "op_wf rd (AsyncReadUntil mx d, HandleReadUntilFinished d' b) = (mx = maxBufferSize rd \<and> d' = d)"
| "op_wf rd (AsyncReadUntil mx d, HandleReadUntilInfNoUnlockLoopstep d' b) = (mx = maxBufferSize rd \<and> d' = d)"
| "op_wf rd (AsyncRead k, HandleReadProtoFramePrefixFinished b) = (k \<le> maxBufferSize rd \<and> protocolSet rd \<and> b)"
| "op_wf rd (AsyncRead k, HandleReadProtoMessageFinished b) = (k \<le> maxBufferSize rd \<and> protocolSet rd \<and> b)"
| "op_wf rd _ = False"

definition reader_wf :: "'cb AsyncReader \<Rightarrow> bool" where
  "reader_wf rd \<longleftrightarrow> length (readBuffer rd) \<le> maxBufferSize rd \<and> maxBufferSize rd < 2 ^ 64 \<and>
     (case pendingReads rd of
        [] \<Rightarrow> True
      | [op] \<Rightarrow> readInProgress rd \<and> callback rd \<noteq> None \<and> op_wf rd op
      | _ \<Rightarrow> False)"

fun session_exn :: "exn \<Rightarrow> bool" where
  "session_exn (LogicError m) = (m = ''Function not yet implemented'')"
| "session_exn (LengthError m) = (m \<in> {''Frame prefix size exceeds max read buffer size'',
     ''Message size exceeds max read buffer size''})"
| "session_exn x = frame_loop_exn x"

fun session_outcome :: "'cb delivery outcome \<Rightarrow> bool" where
  "session_outcome (Ret d) = True"
| "session_outcome (Throw x) = session_exn x"
| "session_outcome (AssertFail m) = (m = ''bytesTransferred == _protocol->getFramePrefixSize()'')"
| "session_outcome (Undefined m) = False"

lemma reader_wf_cases:
  assumes "reader_wf rd"
  obtains (idle) "pendingReads rd = []"
  | (line) d b cb where "pendingReads rd = [(AsyncReadUntil (maxBufferSize rd) d, HandleReadUntilFinished d b)]"
      "readInProgress rd" "callback rd = Some cb"
  | (lines) d b cb where "pendingReads rd = [(AsyncReadUntil (maxBufferSize rd) d, HandleReadUntilInfNoUnlockLoopstep d b)]"
      "readInProgress rd" "callback rd = Some cb"
  | (prefix) k cb where "pendingReads rd = [(AsyncRead k, HandleReadProtoFramePrefixFinished True)]" "k \<le> maxBufferSize rd"
      "readInProgress rd" "callback rd = Some cb" "protocolSet rd"
  | (message) k cb where "pendingReads rd = [(AsyncRead k, HandleReadProtoMessageFinished True)]" "k \<le> maxBufferSize rd"
      "readInProgress rd" "callback rd = Some cb" "protocolSet rd"
proof (cases "pendingReads rd")
  case (Cons op ops)
  then have op: "ops = []" "readInProgress rd" "callback rd \<noteq> None" "op_wf rd op"
    using assms by (auto simp: reader_wf_def split: list.splits)
  then obtain cb where "callback rd = Some cb" by auto
  with op Cons line lines prefix message show thesis
    by (cases "(rd, op)" rule: op_wf.cases) auto
qed (rule idle)

subsection \<open>Lemmas: every call keeps the object well-formed\<close>

lemma wf_unlocked_idle: "reader_wf rd \<Longrightarrow> \<not> readInProgress rd \<Longrightarrow> pendingReads rd = []"
  by (auto simp: reader_wf_def split: list.splits)

lemma start_line_wf: "readAsyncUntilDelim cb d b (rd, lw) = (rd', lw') \<Longrightarrow> reader_wf rd \<Longrightarrow> reader_wf rd'"
  using wf_unlocked_idle [of rd]
  by (auto simp: readAsyncUntilDelim_def tryLockReading_def doReadUntil_def start_read_def reader_wf_def split: if_splits)

lemma start_lines_wf: "readAsyncUntilDelimInfOccupy cb d b (rd, lw) = (rd', lw') \<Longrightarrow> reader_wf rd \<Longrightarrow> reader_wf rd'"
  using wf_unlocked_idle [of rd]
  by (auto simp: readAsyncUntilDelimInfOccupy_def tryLockReading_def doReadUntilInfinitelyNoUnlock_def start_read_def
      reader_wf_def split: if_splits)

lemma start_frames_wf:
  "readAsyncProtoInfOccupy cb (rd, P, lw) = (res, (rd', P', lw')) \<Longrightarrow> reader_wf rd \<Longrightarrow>
     reader_wf rd' \<and> (res = Ret () \<or> res = Throw (LengthError ''Frame prefix size exceeds max read buffer size''))"
  using wf_unlocked_idle [of rd]
  by (auto simp: readAsyncProtoInfOccupy_def tryLockReading_def doReadProtoFramePrefix_def start_read_def
      reader_wf_def split: if_splits)

context protobuf
begin

lemma line_step:
  assumes wf: "reader_wf rd" and pend: "pendingReads rd = [(AsyncReadUntil (maxBufferSize rd) d, HandleReadUntilFinished d b)]"
    and cb: "callback rd = Some cb" and ok: "completion_ok (ec, n, data) rd" and e: "\<not> failed ec"
  shows "\<exists>l r. readBuffer rd @ data = l @ d # r \<and> completeRead L (ec, n, data) (rd, P, lw) =
    (Ret (Call cb (if b then l else l @ [d]) False), (rd\<lparr>readInProgress := False, pendingReads := [], readBuffer := r\<rparr>, P, lw))"
proof -
  let ?buf = "readBuffer rd @ data"
  have d: "d \<in> set ?buf" and n: "n = Suc (length (takeWhile (\<lambda>x. x \<noteq> d) ?buf))" and len: "length ?buf < 2 ^ 64"
    using wf pend ok e by (auto simp: completion_ok_def reader_wf_def)
  from split_at_delim [OF d len] obtain l r where s: "?buf = l @ d # r" "d \<notin> set l"
    "length (takeWhile (\<lambda>x. x \<noteq> d) ?buf) = length l"
    "substr0 ?buf (find_char ?buf d) = l" "substr0 ?buf (find_char ?buf d + 1) = l @ [d]"
    "erase0 ?buf (find_char ?buf d + 1) = r" "find_char ?buf d + 1 = of_nat (Suc (length l))" .
  have "completeRead L (ec, n, data) (rd, P, lw) =
      (Ret (Call cb (if b then l else l @ [d]) False), (rd\<lparr>readInProgress := False, pendingReads := [], readBuffer := r\<rparr>, P, lw))"
    using pend cb n s(3-7)
    by (cases rd) (simp add: completeRead_def handleReadUntilFinished_def checkError_ok [OF e] Let_def
        call_callback_def unlockReading_def)
  with s(1) show ?thesis by blast
qed

lemma frame_step_wf:
  assumes wf: "reader_wf rd" and e: "\<not> failed ec" and ok: "completion_ok (ec, n, data) rd"
    and pend: "pendingReads rd = [(AsyncRead k, h)]" "h = HandleReadProtoFramePrefixFinished True \<or> h = HandleReadProtoMessageFinished True"
      "k \<le> maxBufferSize rd" "readInProgress rd" "callback rd = Some cb" "protocolSet rd"
    and step: "completeRead L (ec, n, data) (rd, P, lw) = (res, (rd', P', lw'))"
  shows "session_outcome res \<and> reader_wf rd'"
proof -
  let ?buf = "readBuffer rd @ data"
  have len: "length ?buf \<le> maxBufferSize rd" "maxBufferSize rd < 2 ^ 64" using wf ok pend(1,3) by (auto simp: completion_ok_def reader_wf_def)
  then have er: "length (erase0 ?buf w) \<le> maxBufferSize rd" for w by (simp add: erase0_def)
  show ?thesis using pend(2)
  proof
    assume h: "h = HandleReadProtoFramePrefixFinished True"
    obtain r c where g: "getMessageSize L ?buf (int n) P = (r, c)" by fastforce
    have "r = Throw (RuntimeError ''Wrong frame prefix format. Parse failed'') \<or> (\<exists>k. r = Ret k)"
      using g by (auto simp: getMessageSize_def Let_def split: prod.splits if_splits)
    then show ?thesis using step pend h len er g
      by (auto simp: completeRead_def handleReadProtoFramePrefixFinished_def checkError_ok [OF e] reader_wf_def
          doReadProtoMessage_def start_read_def split: if_splits)
  next
    assume h: "h = HandleReadProtoMessageFinished True"
    then show ?thesis using step pend len er
      by (auto simp: completeRead_def handleReadProtoMessageFinished_def checkError_ok [OF e] reader_wf_def Let_def
          doReadProtoFramePrefix_def start_read_def call_callback_def split: if_splits)
  qed
qed

lemma completion_wf:
  assumes wf: "reader_wf rd" and ok: "completion_ok (ec, n, data) rd"
    and step: "completeRead L (ec, n, data) (rd, P, lw) = (res, (rd', P', lw'))"
  shows "session_outcome res \<and> reader_wf rd'"
proof (cases "failed ec")
  case True
  from wf ok obtain q where q: "pendingReads rd = [q]" by (auto simp: completion_ok_def reader_wf_def split: list.splits)
  have "length (readBuffer rd @ data) \<le> maxBufferSize rd"
    using wf ok by (cases rule: reader_wf_cases [OF wf]) (auto simp: completion_ok_def)
  with completeRead_failed [OF True q, of L n data P lw] step True wf show ?thesis by (auto simp: reader_wf_def)
next
  case False
  from wf show ?thesis
  proof (cases rule: reader_wf_cases)
    case idle
    with ok show ?thesis by (simp add: completion_ok_def)
  next
    case (line d b cb)
    from line_step [OF wf line(1,3) ok False, of P lw] obtain l r where lr: "readBuffer rd @ data = l @ d # r"
      "rd' = rd\<lparr>readInProgress := False, pendingReads := [], readBuffer := r\<rparr>" "session_outcome res" using step by auto
    have "length (readBuffer rd @ data) \<le> maxBufferSize rd" using ok line(1) by (auto simp: completion_ok_def)
    with wf lr show ?thesis by (simp add: reader_wf_def)
  next
    case (lines d b cb)
    then have "waiting_until cb d b rd" using wf by (simp add: waiting_until_def reader_wf_def)
    from until_step [OF this ok False, of P lw] obtain l r where lr: "readBuffer rd @ data = l @ d # r"
      "rd' = rd\<lparr>readBuffer := r\<rparr>" "session_outcome res" using step by auto
    have "length (readBuffer rd @ data) \<le> maxBufferSize rd" using ok lines(1) by (auto simp: completion_ok_def)
    with wf lr lines show ?thesis by (simp add: reader_wf_def)
  qed (use frame_step_wf [OF wf False ok _ _ _ _ _ _ step] in auto)
qed

lemma call_wf:
  assumes "reader_wf rd" and "reader_call_ok c rd" and "do_call L c (rd, P, lw) = (res, (rd', P', lw'))"
  shows "session_outcome res \<and> reader_wf rd'"
proof (cases c)
  case (Complete e)
  then show ?thesis using assms completion_wf by (cases e) simp
next
  case (ReadProtoInfOccupy cb)
  obtain res1 rd1 P1 lw1 where st: "readAsyncProtoInfOccupy cb (rd, P, lw) = (res1, (rd1, P1, lw1))"
    by (cases "readAsyncProtoInfOccupy cb (rd, P, lw)") auto
  from start_frames_wf [OF st assms(1)] st assms(3) ReadProtoInfOccupy show ?thesis by auto
qed (use assms in \<open>auto simp: readAsyncUntilDelimInf_def dest: start_line_wf start_lines_wf split: prod.splits\<close>)

lemma session_wf:
  assumes "reader_wf rd" and "session_ok L cs (rd, P, lw)" and "reader_session L cs (rd, P, lw) = (outs, (rd', P', lw'))"
  shows "reader_wf rd' \<and> (\<forall>out \<in> set outs. session_outcome out)"
  using assms
proof (induction cs arbitrary: rd P lw outs)
  case (Cons c cs)
  obtain res rd1 P1 lw1 where step: "do_call L c (rd, P, lw) = (res, (rd1, P1, lw1))" by (cases "do_call L c (rd, P, lw)") auto
  with Cons.prems have one: "session_outcome res" "reader_wf rd1" using call_wf [of rd c P lw res rd1 P1 lw1] by auto
  have "session_ok L cs (rd1, P1, lw1)" using Cons.prems(2) step by simp
  note IH = Cons.IH [OF one(2) this]
  obtain outs1 rd2 P2 lw2 where rest: "reader_session L cs (rd1, P1, lw1) = (outs1, (rd2, P2, lw2))"
    by (cases "reader_session L cs (rd1, P1, lw1)") auto
  show ?case
  proof (cases res)
    case (Ret d)
    then show ?thesis using Cons.prems(3) step rest one IH [of outs1] by auto
  next
    case (Throw x)
    then show ?thesis using Cons.prems(3) step rest one IH [of outs1] by auto
  qed (use Cons.prems(3) step one in auto)
qed auto

end

subsection \<open>Properties\<close>

text \<open>
  C20. The reader is well-formed after any use: whatever sequence of calls its owner makes and
  whatever the peer and Asio do, at most one operation is outstanding, with a callback, a protocol
  object where one is needed, and within the limit of the buffer; no null pointer and no empty
  callback is ever called; the only exceptions are those of the system, of a malformed or oversized
  frame and of the function that is not implemented; and the only assertion that can fail is the
  one on the number of prefix bytes, which a frame loop started behind a line reader provokes.
\<close>

theorem reader_well_formed:
  assumes "protobuf L utf8" and "mx < 2 ^ 64" and "session_ok L cs (AsyncReader_ctor mx, P, lw)"
    and "reader_session L cs (AsyncReader_ctor mx, P, lw) = (outs, (rd, P', lw'))"
  shows "reader_wf rd \<and> (\<forall>out \<in> set outs. session_outcome out)"
proof -
  have "reader_wf (AsyncReader_ctor mx)" using assms(2) by (simp add: reader_wf_def AsyncReader_ctor_def)
  from protobuf.session_wf [OF assms(1) this assms(3,4)] show ?thesis .
qed

theorem reader_well_formed_witness:
  "\<exists>outs rd. reader_session wire_lib [ReadUntilDelim () (CHR '';'') True, ReadProtoInfOccupy (), Complete (no_error, 3, ''ab;c'')]
      (AsyncReader_ctor 1024, wire_protocol, initial_logw) = (outs, rd) \<and>
    reader_wf (fst rd) \<and> (\<forall>out \<in> set outs. session_outcome out)"
proof -
  let ?cs = "[ReadUntilDelim () (CHR '';'') True, ReadProtoInfOccupy (), Complete (no_error, 3, ''ab;c'')]"
  let ?st = "(AsyncReader_ctor 1024, wire_protocol, initial_logw)"
  obtain outs rd P lw where run: "reader_session wire_lib ?cs ?st = (outs, (rd, P, lw))"
    by (cases "reader_session wire_lib ?cs ?st") auto
  have "session_ok wire_lib ?cs ?st"
    by (simp add: readAsyncUntilDelim_def readAsyncProtoInfOccupy_def tryLockReading_def AsyncReader_ctor_def doReadUntil_def
        start_read_def completion_ok_def)
  from reader_well_formed [OF wire.protobuf_axioms _ this run] run show ?thesis by auto
qed

end
