(* ===== verification/Spec2Isabelle.thy ===== *)
theory Spec2Isabelle
  imports Echo_Spec Server_Stream Client_Stream Quiescence Reader_Session
begin

text \<open>
  A verification development for AsioClientServer, a TCP client and server on Asio's event loop that
  exchange Protobuf messages behind a frame prefix of fixed size.

  \<^bold>\<open>The program.\<close> Both programs run on one thread: \<^verbatim>\<open>main\<close> constructs the objects, the constructors
  start asynchronous operations, and \<^verbatim>\<open>io_context::run\<close> calls one completion handler after the
  other. On the server, \<^verbatim>\<open>AsyncTcpServer\<close> accepts connections into the \<^verbatim>\<open>ConnectionManager\<close>; an
  accepted \<^verbatim>\<open>TcpConnection\<close> lets its client handler send a welcome message and then reads frames with
  an \<^verbatim>\<open>AsyncReader\<close>; every message goes through \<^verbatim>\<open>Protocol::deserialize\<close> to
  \<^verbatim>\<open>EchoHandler::handleServer\<close>, which sends it back as a response. On the client,
  \<^verbatim>\<open>AsyncCommandLoop\<close> reads lines of the standard input with another \<^verbatim>\<open>AsyncReader\<close>,
  \<^verbatim>\<open>CommandDispatcher\<close> hands echo commands to \<^verbatim>\<open>EchoCommandHandler\<close>, which sends a request through
  \<^verbatim>\<open>AsyncTcpClient\<close> and its \<^verbatim>\<open>AsyncWriter\<close>, and received messages are displayed by
  \<^verbatim>\<open>EchoHandler::handleClient\<close>. Everybody writes to the registered \<^verbatim>\<open>Logger\<close>.

  \<^bold>\<open>Conventions\<close> (theory \<open>Prelude\<close>). A class is a record with the data members of the class; a member
  function is a function that takes the arguments and the state and returns the state. Where the code
  can throw, fail an assertion or run into undefined behaviour, the result is an \<open>outcome\<close> beside the
  state reached so far. Assertions are taken as enabled. \<^verbatim>\<open>size_t\<close>, \<^verbatim>\<open>uint32_t\<close> and port numbers
  are words of their width wherever the arithmetic matters; sizes of buffers are natural numbers.
  An asynchronous operation is an entry in a list of outstanding operations of its object, and an
  event completes the oldest one: the error code, the byte count and the bytes are arguments, and the
  documented conditions of Asio on them are the predicates \<open>asio_read_contract\<close>,
  \<open>asio_write_contract\<close>, \<open>event_ok\<close> and \<open>client_event_ok\<close>. The generated Protobuf classes, the Protobuf
  runtime and the error codes of Asio are the parameter \<open>extlib\<close>; what the program relies on is the
  locale \<open>protobuf\<close>.

  \<^bold>\<open>The theories\<close>, in the order of their imports:
  \<^item> \<open>Prelude\<close>: machine integers, error codes, exceptions, outcomes, the \<^verbatim>\<open>std::string\<close> functions used.
  \<^item> \<open>Logger\<close>: \<^verbatim>\<open>common/.../util/Logger\<close>; streams and the registered logger.
  \<^item> \<open>Protobuf\<close>: the message types of \<^verbatim>\<open>common/proto\<close> and the interface to the libraries. A
    \<^verbatim>\<open>ChatMessage\<close> carries, besides the declared fields, the unknown fields that the generated class
    keeps when it parses and writes back when it serializes.
  \<^item> \<open>Wire\<close>: the proto3 wire format for these types, an interpretation of \<open>protobuf\<close>, on which the
    witnesses are evaluated.
  \<^item> \<open>Protocol\<close>: \<^verbatim>\<open>proto::Protocol\<close>. Its contract is the locale \<open>framing\<close>: a frame is a prefix of fixed
    length that gives the length of the rest. Round trip, unambiguous streams, the empty message.
  \<^item> \<open>Try_Lock\<close>: the locale of the in-progress flag, interpreted for reader, writer and connection.
  \<^item> \<open>AsyncReader\<close>: the class template with all its handlers; the line loop and the frame loop deliver
    what was sent, in order; safety for any peer; the lock.
  \<^item> \<open>Frame_Decoder\<close>: a reference decoder of whole byte strings, for any bytes, and the frame loop as
    equivalent to it, malformed and oversized frames included.
  \<^item> \<open>Frame_Stream\<close>: programs that consume framed streams. \<open>process\<close> is the reference for such a program on
    an arbitrary byte stream, given its reaction to one message; the locales \<open>frame_consumer\<close> and
    \<open>live_frame_consumer\<close> are the contract, event by event, under which a program is equivalent to it.
  \<^item> \<open>Reader_Session\<close>: the reader under any sequence of calls and completions; its well-formedness.
  \<^item> \<open>AsyncWriter\<close>: the class template; accepted writes reach the stream whole and in order.
  \<^item> \<open>EchoHandler\<close>: both handlers; the locale \<open>Sender\<close> is the contract of its template parameter.
  \<^item> \<open>TcpConnection\<close>: the server's connection and the two client handlers; a request is answered.
  \<^item> \<open>Connection_Manager\<close>: the collection of connections as objects with addresses, so that a use of a
    destroyed connection shows; the locale \<open>ConnectionStateListener\<close>.
  \<^item> \<open>Program\<close>: what the two \<^verbatim>\<open>main\<close> functions share, \<^verbatim>\<open>atoi\<close> included; the locale \<open>event_loop\<close> is the
    contract of a program's handlers with \<^verbatim>\<open>io_context::run\<close>, interpreted for both programs.
  \<^item> \<open>Server\<close>: \<^verbatim>\<open>AsyncTcpServer\<close>, the event loop as a step function with the reachability relation
    \<open>server_reach\<close>, and \<^verbatim>\<open>main\<close>; the invariant of every reachable state and how a server process can end.
  \<^item> \<open>Echo_Session\<close>: what clients receive over whole sessions, requests with unknown fields
    included, and how operations interfere.
  \<^item> \<open>Server_Stream\<close>: a connection of the server as a consumer of frames: the answers to any bytes.
  \<^item> \<open>Simulation\<close>: runs of labelled transition systems; the locales \<open>invariant_of\<close>, \<open>terminating\<close>
    (steps that descend) and \<open>forward_simulation\<close> with trace inclusion.
  \<^item> \<open>Echo_Spec\<close>: the abstract echo service, and the server as its refinement.
  \<^item> \<open>AsyncTcpClient\<close>: the client's socket, asynchronous and blocking interface; what the blocking loop shows.
  \<^item> \<open>Command_Dispatcher\<close>: trimming, dispatching and the echo command; the locale \<open>CommandHandler\<close>.
  \<^item> \<open>Client\<close>: the command loop, the client's event loop, its \<^verbatim>\<open>main\<close> and how a client process can end.
  \<^item> \<open>Client_Stream\<close>: the client as a consumer of frames: what it shows for any bytes.
  \<^item> \<open>Channel\<close>: a byte channel that carries frames, relative to the state of its reader.
  \<^item> \<open>Closed_System\<close>: client, server and the two channels between them as one system; the text on
    the client's display, progress, and that the channels can be drained.
  \<^item> \<open>Quiescence\<close>: without further typing the closed system comes to rest, and then every command has
    been answered; and what an overrun does to it.
  \<^item> this theory: the whole path of an echo command through both programs, down to the text on the
    client's display, and the command that is too long for the server.

  \<^bold>\<open>What the theorems show.\<close> At the level of components: round trips and streams (\<open>Protocol\<close>), delivery
  in order and safety for every peer (\<open>AsyncReader\<close>, \<open>AsyncWriter\<close>), equivalence of the frame loop with
  its reference decoder (\<open>Frame_Decoder\<close>), well-formedness of the reader under any use
  (\<open>Reader_Session\<close>), the invariants of the collection of
  connections (\<open>Connection_Manager\<close>), trimming with its wrap-around (\<open>Command_Dispatcher\<close>). At the level of
  the programs: every reachable state of server and client keeps its invariant, every event has a
  known outcome and so has every process (\<open>Server\<close>, \<open>Client\<close>). Of the service: the server's runs are runs of the abstract echo
  service \<open>service_step\<close>, related by \<open>server_rel\<close>, so that every client is sent exactly what it is due. Of
  the bytes: for every stream, malformed ones included, what a client is answered, what the client shows
  and how the program ends are given by a reference function of the stream alone (\<open>Server_Stream\<close>,
  \<open>Client_Stream\<close>).
  Of the whole: in the closed system no message is lost, invented or overtaken, no event fails, and
  however reads and writes are scheduled they come to rest with every command answered by the text on
  the client's display, for commands whose text is valid UTF-8 and leaves room for the framing in the
  server's buffer. The weakness
  that these statements exclude by name is the overrun: a request that arrives while the previous
  answer is still being written changes the buffer of that write; \<open>own_client_overruns_server\<close> shows
  that the program's own client brings it about with one early command. The remaining theorems state the error behaviour, in particular the ways in which a client
  can end the server.

  \<^bold>\<open>Bounds and fuel.\<close> The only loop with fuel is the blocking receive loop of the client; one unit more
  than the stream has bytes is enough, since an iteration that continues consumes at least the five bytes of its
  prefix. The parser of theory \<open>Wire\<close> takes the length of its input, for the same reason. Statements
  about connections assume fewer than $2^{64}$ connections, where the identity counter wraps; those about
  lines assume lengths below $2^{64}$, which every string has.

  \<^bold>\<open>What is not modelled.\<close> Sockets, descriptors and the reactor below Asio's documented interface; the
  scheduling of handlers beyond their order; unknown fields of a \<^verbatim>\<open>FramePrefix\<close>, which is either
  new or only read; \<^verbatim>\<open>reserve\<close> on buffers, which changes capacities only; the
  commented-out code; the destruction of the
  objects at the end of \<^verbatim>\<open>main\<close>; \<^verbatim>\<open>util::Identity\<close>, which carries a type only; three functions that
  return their argument or do nothing and that no call reaches or depends on, \<^verbatim>\<open>util::log(std::ostream&)\<close>,
  the default of \<^verbatim>\<open>ConnectionStateListener::connectionClosed\<close> and \<^verbatim>\<open>TcpConnection::getSocket\<close>; build
  files and tests.
\<close>

subsection \<open>Both programs together\<close>

text \<open>
  C1. The whole path of an echo command. The user types a line with the command and a text; the client
  is connected and idle, the server waits for its next frame. Then the client's outstanding write is
  the frame of a request with that text; the server, having received these bytes, sends back one
  frame; and the client, having received exactly the bytes the server sent, displays the text with
  the identifier of the request. Neither program throws, aborts or is undefined on the way.
\<close>

theorem echo_end_to_end:
  assumes "protobuf L utf8" and "serving r s"
    and "app_inv app" and "client_ready (ca_client app)" and "\<not> writeInProgress (cl_writer (ca_client app))"
    and "readBuffer (al_reader (ca_loop app)) = []" and "maxBufferSize (al_reader (ca_loop app)) = MAX_READ_BUFFER_SIZE_BYTES"
    and "lw_instance (ca_log app) = std_logger"
    and "set a \<subseteq> set blanks" and "set b \<subseteq> set blanks" and "set z \<subseteq> set blanks"
    and "trim_left t = t" and "trim_right t = t" and "CHR 0x0A \<notin> set t" and "utf8 t"
    and "length t + 23 \<le> MAX_READ_BUFFER_SIZE_BYTES"
    and "length (a @ ECHO_CMD_PREFIX @ b @ t @ z) < MAX_READ_BUFFER_SIZE_BYTES"
    and "line = (a @ ECHO_CMD_PREFIX @ b @ t @ z) @ [CHR 0x0A]"
    and "req = \<lparr>cm_id = ucast (ca_echoCommandId app), cm_text = t, cm_type = ChatMessage_ECHO_REQUEST, cm_unknown = []\<rparr>"
    and "rsp = req\<lparr>cm_type := ChatMessage_ECHO_RESPONSE\<rparr>"
  shows "\<exists>app1 s' app2.
    client_step L (InputRead (no_error, length line, line)) app = (Ret (), app1) \<and>
    map wo_data (pendingWrites (cl_writer (ca_client app1))) = [received (frame_events L (chat_body L req))] \<and>
    server_run L (exchange L r req) s = (Ret (), s') \<and> serving r s' \<and>
    received (frame_events L (chat_body L rsp)) = sent_to L r (exchange L r req) s \<and>
    client_run L (SocketWrite no_error (length (frame L (chat_body L req))) #
        map SocketRead (frame_events L (chat_body L rsp))) app1 = (Ret (), app2) \<and>
    stream_text (ca_log app2) Cout = stream_text (ca_log app) Cout @
      ''DBG: handling echo command...\<newline>DBG: handle Echo receive client\<newline>ECHO_RSP id:'' @
      show_nat (unat (cm_id req)) @ ''  text: \"\<newline>'' @ t @ ''\<newline>\"\<newline>''"
proof -
  let ?lw = "log_line ''DBG: handling echo command...'' (ca_log app)"
  have req: "req = echo_message (ca_echoCommandId app) t" and rsp: "rsp = echo_response req"
    using assms(19,20) by (simp_all add: echo_message_def ChatMessage_default_def echo_response_def)
  have er: "echo_request utf8 req" using assms(15,16,19) by (simp add: echo_request_def chat_fits_def)
  have fr: "framable (chat_body L req)" "framable (chat_body L rsp)"
    using assms(15,16,19,20) by (auto intro!: protobuf.fitting_body(2) [OF assms(1)] simp: chat_fits_def)
  note rec = protobuf.received_frame_events [OF assms(1), of "[chat_body L req]"]
    protobuf.received_frame_events [OF assms(1), of "[chat_body L rsp]"]
  obtain c where c: "client_step L (InputRead (no_error, length line, line)) app =
      (Ret (), app\<lparr>ca_client := c, ca_echoCommandId := ca_echoCommandId app + 1, ca_log := ?lw\<rparr>)"
    "pendingWrites (cl_writer c) = [\<lparr>wo_data = frame L (chat_body L req), wo_intact = True\<rparr>]"
    "client_inv c" "cl_reader c = cl_reader (ca_client app)" "cl_connecting c = cl_connecting (ca_client app)"
    "PREFIX_SIZE (cl_protocol c) = PREFIX_SIZE (cl_protocol (ca_client app))"
    using client_types_echo [OF assms(1,3,5,6,7,9-14,17,18)] unfolding req by blast
  let ?app1 = "app\<lparr>ca_client := c, ca_echoCommandId := ca_echoCommandId app + 1, ca_log := ?lw\<rparr>"
  have "client_ready (ca_client ?app1)" using c(3-6) assms(4) by (simp add: client_ready_def await_prefix_def)
  from client_write_done [OF assms(1) this] c(2) obtain c1
    where c1: "client_step L (SocketWrite no_error (length (frame L (chat_body L req)))) ?app1 =
      (Ret (), ?app1\<lparr>ca_client := c1\<rparr>)" "client_ready (ca_client (?app1\<lparr>ca_client := c1\<rparr>))" by auto
  from client_gets_response [OF assms(1) c1(2), of rsp] assms(15,16,19,20) obtain c2
    where c2: "client_run L (map SocketRead (frame_events L (chat_body L rsp))) (?app1\<lparr>ca_client := c1\<rparr>) =
      (Ret (), ?app1\<lparr>ca_client := c2, ca_log := log_put (echo_rsp_text rsp)
        (log_line ''DBG: handle Echo receive client'' ?lw)\<rparr>)" by auto
  from exchange_run [OF assms(1,2) er] obtain s' where s': "server_run L (exchange L r req) s = (Ret (), s')" "serving r s'"
    "sent_to L r (exchange L r req) s = frame L (chat_body L rsp)" unfolding rsp by blast
  have "stream_text (log_put (echo_rsp_text rsp) (log_line ''DBG: handle Echo receive client'' ?lw)) Cout =
      stream_text (ca_log app) Cout @ ''DBG: handling echo command...\<newline>DBG: handle Echo receive client\<newline>ECHO_RSP id:'' @
      show_nat (unat (cm_id req)) @ ''  text: \"\<newline>'' @ t @ ''\<newline>\"\<newline>''"
    using assms(8,19,20) by (simp add: log_text_simps std_logger_def echo_rsp_text_def)
  with c(1,2) c1(1) c2 s' rec fr show ?thesis
    by (intro exI [of _ ?app1] exI [of _ s'] exI) (auto simp del: client_step.simps)
qed

theorem echo_end_to_end_witness:
  "\<exists>app1 s' app2 req rsp.
    client_step wire_lib (InputRead (no_error, length '' >echo hi\<newline>'', '' >echo hi\<newline>'')) sample_app = (Ret (), app1) \<and>
    server_run wire_lib (exchange wire_lib 0 req) busy_server = (Ret (), s') \<and>
    received (frame_events wire_lib (chat_body wire_lib rsp)) = sent_to wire_lib 0 (exchange wire_lib 0 req) busy_server \<and>
    client_run wire_lib (SocketWrite no_error (length (frame wire_lib (chat_body wire_lib req))) #
        map SocketRead (frame_events wire_lib (chat_body wire_lib rsp))) app1 = (Ret (), app2) \<and>
    stream_text (ca_log app2) Cout = stream_text (ca_log sample_app) Cout @
      ''DBG: handling echo command...\<newline>DBG: handle Echo receive client\<newline>ECHO_RSP id:'' @
      show_nat (unat (cm_id req)) @ ''  text: \"\<newline>'' @ ''hi'' @ ''\<newline>\"\<newline>''"
proof -
  have c: "client_ready (ca_client sample_app)" "\<not> writeInProgress (cl_writer (ca_client sample_app))"
    "readBuffer (al_reader (ca_loop sample_app)) = []" "lw_instance (ca_log sample_app) = std_logger"
    "maxBufferSize (al_reader (ca_loop sample_app)) = MAX_READ_BUFFER_SIZE_BYTES"
    using connected_client_ready by (simp_all add: sample_app_def connected_client_def AsyncWriter_ctor_def)
  have b: "set '' '' \<subseteq> set blanks" "set [] \<subseteq> set blanks" "trim_left ''hi'' = ''hi''" "trim_right ''hi'' = ''hi''"
    "CHR 0x0A \<notin> set ''hi''" "valid_utf8 ''hi''" "length ''hi'' + 23 \<le> MAX_READ_BUFFER_SIZE_BYTES"
    "length ('' '' @ ECHO_CMD_PREFIX @ '' '' @ ''hi'' @ []) < MAX_READ_BUFFER_SIZE_BYTES"
    using wire.utf8_ascii [of "''hi''"]
    by (simp_all add: trim_left_def trim_right_def blanks_def ECHO_CMD_PREFIX_def MAX_READ_BUFFER_SIZE_BYTES_def)
  have line: "'' >echo hi\<newline>'' = ('' '' @ ECHO_CMD_PREFIX @ '' '' @ ''hi'' @ []) @ [CHR 0x0A]"
    by (simp add: ECHO_CMD_PREFIX_def)
  from echo_end_to_end [OF wire.protobuf_axioms busy_server_serving sample_app_inv c(1,2,3,5,4) b(1,1,2-8) line refl refl]
  show ?thesis by blast
qed

text \<open>
  C29. The client's own commands can be too long for the server: the input buffer of the client takes
  lines of up to 1023 bytes, but the message made of a line that long, with its identifier and the
  lengths and types of the encoding, can exceed the server's buffer of 1024 bytes. The client accepts
  the command and sends the frame; the prefix alone makes the server throw \<^verbatim>\<open>std::length_error\<close>,
  which \<^verbatim>\<open>main\<close> does not catch, and the process is terminated with all its connections.
\<close>

theorem long_command_terminates_server:
  assumes "protobuf L utf8" and "map_of (sv_connections s) r = Some c" and "await_frame c"
    and "app_inv app" and "\<not> writeInProgress (cl_writer (ca_client app))"
    and "readBuffer (al_reader (ca_loop app)) = []" and "maxBufferSize (al_reader (ca_loop app)) = MAX_READ_BUFFER_SIZE_BYTES"
    and "trim_left t = t" and "trim_right t = t" and "CHR 0x0A \<notin> set t"
    and "line = ECHO_CMD_PREFIX @ t @ [CHR 0x0A]" and "length line \<le> MAX_READ_BUFFER_SIZE_BYTES"
    and "body = chat_body L (echo_message (ca_echoCommandId app) t)" and "MAX_READ_BUFFER_SIZE_BYTES < length body"
  shows "\<exists>app'. client_step L (InputRead (no_error, length line, line)) app = (Ret (), app') \<and>
      map wo_data (pendingWrites (cl_writer (ca_client app'))) = [frame L body] \<and>
      fst (finish_main L (server_run L (ReadDone r (no_error, FRAME_PREFIX_SIZE, take FRAME_PREFIX_SIZE (frame L body)) # es) s)) =
        Terminate (LengthError ''Message size exceeds max read buffer size'')"
proof -
  let ?e = "(no_error, FRAME_PREFIX_SIZE, take FRAME_PREFIX_SIZE (frame L body))"
  have len: "length ([] @ ECHO_CMD_PREFIX @ [] @ t @ []) < MAX_READ_BUFFER_SIZE_BYTES" using assms(11,12) by simp
  have line: "line = ([] @ ECHO_CMD_PREFIX @ [] @ t @ []) @ [CHR 0x0A]" using assms(11) by simp
  have nil: "set ([] :: string) \<subseteq> set blanks" by simp
  from client_types_echo [OF assms(1,4-7) nil nil nil assms(8-10) len line] obtain app' where
    app': "client_step L (InputRead (no_error, length line, line)) app = (Ret (), app')"
      "map wo_data (pendingWrites (cl_writer (ca_client app'))) = [frame L body]"
    unfolding assms(13) by (auto simp del: client_step.simps)
  have "length (cm_text (echo_message (ca_echoCommandId app) t)) + length (cm_unknown (echo_message (ca_echoCommandId app) t)) + 23 < 2 ^ 31" "cm_type (echo_message (ca_echoCommandId app) t) \<noteq> 0"
    using len by (simp_all add: echo_message_def ChatMessage_default_def MAX_READ_BUFFER_SIZE_BYTES_def)
  from protobuf.chat_body_framable(2) [OF assms(1) this] have fr: "framable body" by (simp add: assms(13))
  have c: "proto_mode TcpConnection_handleRead_cb (tc_reader c) (tc_protocol c)" "await_prefix (tc_protocol c) (tc_reader c)"
    "Protocol_inv (tc_protocol c)" "maxBufferSize (tc_reader c) < length body"
    using assms(3,14) by (simp_all add: await_frame_def conn_running_def conn_inv_def proto_inv_def)
  from protobuf.oversized_prefix [OF assms(1) c(1-3) fr c(4), of "sv_log s"] obtain rd P where
    "completeRead L ?e (tc_reader c, tc_protocol c, sv_log s) =
      (Throw (LengthError ''Message size exceeds max read buffer size''), (rd, P, sv_log s))" by blast
  then have "server_step L (ReadDone r ?e) s = (Throw (LengthError ''Message size exceeds max read buffer size''),
      s\<lparr>sv_connections := AList.update r (c\<lparr>tc_reader := rd, tc_protocol := P\<rparr>) (sv_connections s), sv_log := sv_log s\<rparr>)"
    unfolding server_step.simps by (intro on_conn_Some [OF assms(2)]) (simp add: TcpConnection_onRead_def)
  with app' show ?thesis by (intro exI [of _ app']) (simp del: client_step.simps server_step.simps)
qed

text \<open>The 1018 characters that fill a line, as the second command of a session.\<close>

lemma longest_command:
  "length (chat_body wire_lib (echo_message 1 (replicate 1018 CHR ''x''))) = 1025"
proof -
  have "length (varint 1018) = 2" by (simp add: varint.simps)
  then have tx: "length (enc_string 2 (replicate 1018 CHR ''x'')) = 1021"
    using length_varint_tag [of 2 2] by (simp add: enc_string_def)
  have "length (enc_uint32 1 1) = 2" "length (enc_enum 15 ChatMessage_ECHO_REQUEST) = 2"
    by (simp_all add: enc_uint32_def enc_enum_def tag_def varint.simps)
  with tx show ?thesis
    by (simp add: chat_body_def wire_lib_def echo_message_def ChatMessage_default_def enc_ChatMessage_def
       )
qed

theorem long_command_terminates_server_witness:
  "\<exists>app app' body. client_step wire_lib (InputRead (no_error, 1024, ECHO_CMD_PREFIX @ replicate 1018 CHR ''x'' @ [CHR 0x0A])) app =
       (Ret (), app') \<and> map wo_data (pendingWrites (cl_writer (ca_client app'))) = [frame wire_lib body] \<and>
     fst (finish_main wire_lib (server_run wire_lib
       [ReadDone 0 (no_error, FRAME_PREFIX_SIZE, take FRAME_PREFIX_SIZE (frame wire_lib body))] busy_server)) =
       Terminate (LengthError ''Message size exceeds max read buffer size'')"
proof -
  let ?t = "replicate 1018 CHR ''x''" and ?app = "sample_app\<lparr>ca_echoCommandId := 1\<rparr>"
  let ?line = "ECHO_CMD_PREFIX @ replicate 1018 CHR ''x'' @ [CHR 0x0A]"
  have s: "map_of (sv_connections busy_server) 0 = Some (idle_connection 0)" by (simp add: busy_server_def)
  have app: "app_inv ?app" "\<not> writeInProgress (cl_writer (ca_client ?app))" "readBuffer (al_reader (ca_loop ?app)) = []"
    "maxBufferSize (al_reader (ca_loop ?app)) = MAX_READ_BUFFER_SIZE_BYTES"
    using sample_app_inv by (simp_all add: sample_app_def connected_client_def AsyncWriter_ctor_def app_inv_def)
  have t: "trim_left ?t = ?t" "trim_right ?t = ?t" "CHR 0x0A \<notin> set ?t"
    by (simp_all add: trim_left_def trim_right_def dropWhile_eq_self_iff blanks_def)
  have len: "length ?line = 1024" by (simp add: ECHO_CMD_PREFIX_def)
  have fit: "1024 \<le> MAX_READ_BUFFER_SIZE_BYTES" by (simp add: MAX_READ_BUFFER_SIZE_BYTES_def)
  have "MAX_READ_BUFFER_SIZE_BYTES < length (chat_body wire_lib (echo_message (ca_echoCommandId ?app) ?t))"
    using longest_command by (simp add: MAX_READ_BUFFER_SIZE_BYTES_def)
  from long_command_terminates_server [OF wire.protobuf_axioms s idle_connection_ok(1) app t refl _ refl this,
      of "[]", unfolded len, OF fit] show ?thesis
    by (elim exE) (rule exI [of _ ?app], rule exI, rule exI [of _ "chat_body wire_lib (echo_message (ca_echoCommandId ?app) ?t)"])
qed

end
